theory Spec2Isabelle
  imports Complex_Main
begin

section \<open>Python values used by the editor\<close>

text \<open>
  The program is \<^verbatim>\<open>src/main.py\<close>: a Tkinter diagram editor with the classes
  \<^verbatim>\<open>Node\<close>, \<^verbatim>\<open>Edge\<close> and \<^verbatim>\<open>DiagramEditor\<close>.
  Exceptions are values: a method that can raise returns \<open>error + 'a\<close>, and a method
  that mutates \<^verbatim>\<open>self\<close> returns the state it leaves behind together with the
  exception, if any (a Python exception does not undo the assignments made before it).
\<close>

datatype error = AttributeError | KeyError

text \<open>\<^verbatim>\<open>str(n)\<close> for a non-negative integer: its decimal digits.\<close>

fun str :: "nat \<Rightarrow> string" where
  "str n = (if n < 10 then [char_of (48 + n)]
            else str (n div 10) @ [char_of (48 + n mod 10)])"

declare str.simps [simp del]

text \<open>
  \<^verbatim>\<open>s.lower()\<close>. Fill colours are ASCII strings (\<^verbatim>\<open>"#FFA500"\<close>), on which
  \<^verbatim>\<open>lower\<close> maps \<^verbatim>\<open>A\<close>..\<^verbatim>\<open>Z\<close> to \<^verbatim>\<open>a\<close>..\<^verbatim>\<open>z\<close> and keeps every other
  character.
\<close>

definition lower_char :: "char \<Rightarrow> char" where
  "lower_char c =
     (let n = (of_char c :: nat) in if 65 \<le> n \<and> n \<le> 90 then char_of (n + 32) else c)"

definition lower :: "string \<Rightarrow> string" where
  "lower s = map lower_char s"

text \<open>\<^verbatim>\<open>sep.join(xs)\<close>.\<close>

fun join :: "string \<Rightarrow> string list \<Rightarrow> string" where
  "join sep [] = []"
| "join sep [s] = s"
| "join sep (s # t # ss) = s @ sep @ join sep (t # ss)"

text \<open>
  A \<^verbatim>\<open>dict\<close> keeps its keys in insertion order, and assigning to a key that is
  present keeps the key's place: an association list with distinct keys.
\<close>

fun dict_set :: "('k \<times> 'v) list \<Rightarrow> 'k \<Rightarrow> 'v \<Rightarrow> ('k \<times> 'v) list" where
  "dict_set [] k v = [(k, v)]"
| "dict_set ((k', v') # d) k v =
     (if k' = k then (k, v) # d else (k', v') # dict_set d k v)"

definition dict_get :: "('k \<times> 'v) list \<Rightarrow> 'k \<Rightarrow> error + 'v" where
  "dict_get d k = (case map_of d k of None \<Rightarrow> Inl KeyError | Some v \<Rightarrow> Inr v)"

definition dict_values :: "('k \<times> 'v) list \<Rightarrow> 'v list" where
  "dict_values d = map snd d"

text \<open>\<^verbatim>\<open>d.setdefault(k, []).append(v)\<close>.\<close>

fun setdefault_append :: "('k \<times> 'v list) list \<Rightarrow> 'k \<Rightarrow> 'v \<Rightarrow> ('k \<times> 'v list) list" where
  "setdefault_append [] k v = [(k, [v])]"
| "setdefault_append ((k', vs) # d) k v =
     (if k' = k then (k', vs @ [v]) # d else (k', vs) # setdefault_append d k v)"

section \<open>The canvas\<close>

text \<open>
  \<^verbatim>\<open>tk.Canvas\<close> is the toolkit's, not the program's. What the program relies on:
  every \<^verbatim>\<open>create_*\<close> call returns a fresh integer handle (Tk counts from 1),
  \<^verbatim>\<open>coords\<close> replaces the coordinates of the item with that handle,
  \<^verbatim>\<open>itemconfig\<close> sets options of it and \<^verbatim>\<open>delete\<close> removes it. A handle that
  names no item leaves the canvas as it is.
\<close>

record canvas_item =
  it_kind :: string
  it_coords :: "rat list"
  it_opts :: "(string \<times> string) list"

record Canvas =
  next_item :: nat
  items :: "nat \<rightharpoonup> canvas_item"

definition canvas_create ::
  "Canvas \<Rightarrow> string \<Rightarrow> rat list \<Rightarrow> (string \<times> string) list \<Rightarrow> nat \<times> Canvas" where
  "canvas_create c k cs os =
     (let i = next_item c
      in (i, c\<lparr>next_item := Suc i,
                items := (items c)(i \<mapsto> \<lparr>it_kind = k, it_coords = cs, it_opts = os\<rparr>)\<rparr>))"

definition canvas_coords :: "Canvas \<Rightarrow> nat option \<Rightarrow> rat list \<Rightarrow> Canvas" where
  "canvas_coords c h cs =
     (case h of None \<Rightarrow> c
      | Some i \<Rightarrow> (case items c i of None \<Rightarrow> c
                   | Some it \<Rightarrow> c\<lparr>items := (items c)(i \<mapsto> it\<lparr>it_coords := cs\<rparr>)\<rparr>))"

definition canvas_itemconfig :: "Canvas \<Rightarrow> nat option \<Rightarrow> (string \<times> string) list \<Rightarrow> Canvas" where
  "canvas_itemconfig c h os =
     (case h of None \<Rightarrow> c
      | Some i \<Rightarrow> (case items c i of None \<Rightarrow> c
                   | Some it \<Rightarrow>
                       c\<lparr>items := (items c)(i \<mapsto>
                            it\<lparr>it_opts := fold (\<lambda>(k, v) d. dict_set d k v) os (it_opts it)\<rparr>)\<rparr>))"

definition canvas_delete :: "Canvas \<Rightarrow> nat option \<Rightarrow> Canvas" where
  "canvas_delete c h =
     (case h of None \<Rightarrow> c | Some i \<Rightarrow> c\<lparr>items := (items c)(i := None)\<rparr>)"

text \<open>The coordinates an item is drawn at; \<open>[]\<close> when the handle names no item.\<close>

definition rendered :: "Canvas \<Rightarrow> nat option \<Rightarrow> rat list" where
  "rendered c h =
     (case h of None \<Rightarrow> []
      | Some i \<Rightarrow> (case items c i of None \<Rightarrow> [] | Some it \<Rightarrow> it_coords it))"

section \<open>class Node\<close>

text \<open>
  \<^verbatim>\<open>width\<close> and \<^verbatim>\<open>height\<close> are attributes that \<^verbatim>\<open>__init__\<close> sets only for
  the shapes \<^verbatim>\<open>"rectangle"\<close> and \<^verbatim>\<open>"diamond"\<close>: they are optional, and reading
  a missing one raises \<^verbatim>\<open>AttributeError\<close>. Positions are the integer pixel
  coordinates of Tk events; \<^verbatim>\<open>/\<close> is true division, so centres are rationals
  (the floats Python computes are exact on these values).
\<close>

record Node =
  n_id :: string
  n_x :: int
  n_y :: int
  n_text :: string
  n_shape :: string
  n_fill :: string
  n_width :: "int option"
  n_height :: "int option"
  n_item :: "nat option"
  n_text_item :: "nat option"

definition attr :: "'a option \<Rightarrow> error + 'a" where
  "attr a = (case a of None \<Rightarrow> Inl AttributeError | Some v \<Rightarrow> Inr v)"

definition get_center :: "Node \<Rightarrow> error + (rat \<times> rat)" where
  "get_center node =
     (case attr (n_width node) of Inl e \<Rightarrow> Inl e
      | Inr w \<Rightarrow> (case attr (n_height node) of Inl e \<Rightarrow> Inl e
                  | Inr h \<Rightarrow> Inr (of_int (n_x node) + of_int w / 2,
                                  of_int (n_y node) + of_int h / 2)))"

text \<open>
  \<^verbatim>\<open>self.x <= x <= self.x + self.width and self.y <= y <= self.y + self.height\<close>:
  the chained comparisons and \<^verbatim>\<open>and\<close> stop at the first false test, so an
  attribute is read only when the tests before it hold.
\<close>

definition contains_point :: "Node \<Rightarrow> int \<Rightarrow> int \<Rightarrow> error + bool" where
  "contains_point node x y =
     (if \<not> n_x node \<le> x then Inr False
      else (case attr (n_width node) of Inl e \<Rightarrow> Inl e
            | Inr w \<Rightarrow>
                (if \<not> x \<le> n_x node + w then Inr False
                 else if \<not> n_y node \<le> y then Inr False
                 else (case attr (n_height node) of Inl e \<Rightarrow> Inl e
                       | Inr h \<Rightarrow> Inr (y \<le> n_y node + h)))))"

text \<open>The corner and outline coordinates both \<^verbatim>\<open>draw\<close> and \<^verbatim>\<open>update_position\<close> compute.\<close>

definition rect_coords :: "Node \<Rightarrow> error + rat list" where
  "rect_coords node =
     (case attr (n_width node) of Inl e \<Rightarrow> Inl e
      | Inr w \<Rightarrow> (case attr (n_height node) of Inl e \<Rightarrow> Inl e
                  | Inr h \<Rightarrow> Inr [of_int (n_x node), of_int (n_y node),
                                  of_int (n_x node + w), of_int (n_y node + h)]))"

definition diamond_points :: "Node \<Rightarrow> error + (rat \<times> rat \<times> rat list)" where
  "diamond_points node =
     (case attr (n_width node) of Inl e \<Rightarrow> Inl e
      | Inr w \<Rightarrow> (case attr (n_height node) of Inl e \<Rightarrow> Inl e
                  | Inr h \<Rightarrow>
                      (let cx = of_int (n_x node) + of_int w / 2;
                           cy = of_int (n_y node) + of_int h / 2
                       in Inr (cx, cy,
                               [cx, of_int (n_y node), of_int (n_x node + w), cy,
                                cx, of_int (n_y node + h), of_int (n_x node), cy]))))"

definition draw :: "Canvas \<Rightarrow> Node \<Rightarrow> error + (Node \<times> Canvas)" where
  "draw c node =
     (if n_shape node = ''rectangle'' then
        (case rect_coords node of Inl e \<Rightarrow> Inl e
         | Inr cs \<Rightarrow>
             (case get_center node of Inl e \<Rightarrow> Inl e
              | Inr (cx, cy) \<Rightarrow>
                  (let (i, c1) = canvas_create c ''rectangle'' cs
                         [(''fill'', n_fill node), (''outline'', ''black''), (''width'', ''2'')];
                       (t, c2) = canvas_create c1 ''text'' [cx, cy]
                         [(''text'', n_text node), (''font'', ''Arial 10'')]
                   in Inr (node\<lparr>n_item := Some i, n_text_item := Some t\<rparr>, c2))))
      else if n_shape node = ''diamond'' then
        (case diamond_points node of Inl e \<Rightarrow> Inl e
         | Inr (cx, cy, points) \<Rightarrow>
             (let (i, c1) = canvas_create c ''polygon'' points
                    [(''fill'', n_fill node), (''outline'', ''black''), (''width'', ''2'')];
                  (t, c2) = canvas_create c1 ''text'' [cx, cy]
                    [(''text'', n_text node), (''font'', ''Arial 10'')]
              in Inr (node\<lparr>n_item := Some i, n_text_item := Some t\<rparr>, c2)))
      else Inr (node, c))"

text \<open>
  \<^verbatim>\<open>Node.__init__\<close>: no branch for any other shape, so such a node gets neither
  \<^verbatim>\<open>width\<close> nor \<^verbatim>\<open>height\<close>, and \<^verbatim>\<open>draw\<close> creates nothing for it.
\<close>

definition Node_init ::
  "Canvas \<Rightarrow> string \<Rightarrow> int \<Rightarrow> int \<Rightarrow> string \<Rightarrow> string \<Rightarrow> string \<Rightarrow> error + (Node \<times> Canvas)" where
  "Node_init c node_id x y text shape fill =
     (let wh = (if shape = ''rectangle'' then (Some 100, Some 50)
                else if shape = ''diamond'' then (Some 100, Some 60)
                else (None, None))
      in draw c \<lparr>n_id = node_id, n_x = x, n_y = y, n_text = text, n_shape = shape,
                  n_fill = fill, n_width = fst wh, n_height = snd wh,
                  n_item = None, n_text_item = None\<rparr>)"

text \<open>
  \<^verbatim>\<open>Node.update_position\<close>: the position is assigned first and stays assigned if
  reading a dimension raises.
\<close>

definition update_position :: "Canvas \<Rightarrow> Node \<Rightarrow> int \<Rightarrow> int \<Rightarrow> error option \<times> Node \<times> Canvas" where
  "update_position c node new_x new_y =
     (let node1 = node\<lparr>n_x := new_x, n_y := new_y\<rparr>
      in if n_shape node1 = ''rectangle'' then
           (case rect_coords node1 of Inl e \<Rightarrow> (Some e, node1, c)
            | Inr cs \<Rightarrow>
                (let c1 = canvas_coords c (n_item node1) cs
                 in case get_center node1 of Inl e \<Rightarrow> (Some e, node1, c1)
                    | Inr (cx, cy) \<Rightarrow>
                        (None, node1, canvas_coords c1 (n_text_item node1) [cx, cy])))
         else if n_shape node1 = ''diamond'' then
           (case diamond_points node1 of Inl e \<Rightarrow> (Some e, node1, c)
            | Inr (cx, cy, points) \<Rightarrow>
                (None, node1,
                 canvas_coords (canvas_coords c (n_item node1) points)
                   (n_text_item node1) [cx, cy]))
         else (None, node1, c))"

definition update_text :: "Canvas \<Rightarrow> Node \<Rightarrow> string \<Rightarrow> Node \<times> Canvas" where
  "update_text c node new_text =
     (node\<lparr>n_text := new_text\<rparr>,
      canvas_itemconfig c (n_text_item node) [(''text'', new_text)])"

definition update_color :: "Canvas \<Rightarrow> Node \<Rightarrow> string \<Rightarrow> Node \<times> Canvas" where
  "update_color c node new_color =
     (node\<lparr>n_fill := new_color\<rparr>,
      canvas_itemconfig c (n_item node) [(''fill'', new_color)])"

definition highlight :: "Canvas \<Rightarrow> Node \<Rightarrow> bool \<Rightarrow> Canvas" where
  "highlight c node flag =
     (if flag then canvas_itemconfig c (n_item node) [(''outline'', ''red''), (''width'', ''3'')]
      else canvas_itemconfig c (n_item node) [(''outline'', ''black''), (''width'', ''2'')])"

section \<open>class Edge\<close>

text \<open>
  Objects live in a store: \<open>heap\<close> is the list of the \<^verbatim>\<open>Node\<close> objects ever
  constructed, and a reference to a \<^verbatim>\<open>Node\<close> is its index there. An \<^verbatim>\<open>Edge\<close>
  holds references to its endpoints, so it sees a node's current position.
  \<^verbatim>\<open>Edge\<close> objects are reached only through \<^verbatim>\<open>self.edges\<close> and are stored there
  by value.
\<close>

type_synonym ref = nat

record Edge =
  e_source :: ref
  e_target :: ref
  e_label :: string
  e_line_item :: "nat option"
  e_label_item :: "nat option"

text \<open>Truth value of an attribute holding \<^verbatim>\<open>None\<close> or an integer handle.\<close>

definition truthy :: "nat option \<Rightarrow> bool" where
  "truthy h = (case h of None \<Rightarrow> False | Some i \<Rightarrow> i \<noteq> 0)"

definition Edge_draw :: "Canvas \<Rightarrow> Node list \<Rightarrow> Edge \<Rightarrow> error + (Edge \<times> Canvas)" where
  "Edge_draw c h e =
     (case get_center (h ! e_source e) of Inl err \<Rightarrow> Inl err
      | Inr (sx, sy) \<Rightarrow>
          (case get_center (h ! e_target e) of Inl err \<Rightarrow> Inl err
           | Inr (tx, ty) \<Rightarrow>
               (let (l, c1) = canvas_create c ''line'' [sx, sy, tx, ty]
                      [(''arrow'', ''last''), (''width'', ''2'')];
                    e1 = e\<lparr>e_line_item := Some l\<rparr>
                in if e_label e1 \<noteq> [] then
                     (let (t, c2) = canvas_create c1 ''text'' [(sx + tx) / 2, (sy + ty) / 2]
                            [(''text'', e_label e1), (''fill'', ''blue'')]
                      in Inr (e1\<lparr>e_label_item := Some t\<rparr>, c2))
                   else Inr (e1, c1))))"

definition Edge_init :: "Canvas \<Rightarrow> Node list \<Rightarrow> ref \<Rightarrow> ref \<Rightarrow> string \<Rightarrow> error + (Edge \<times> Canvas)" where
  "Edge_init c h source target label =
     Edge_draw c h \<lparr>e_source = source, e_target = target, e_label = label,
                     e_line_item = None, e_label_item = None\<rparr>"

definition Edge_update_position :: "Canvas \<Rightarrow> Node list \<Rightarrow> Edge \<Rightarrow> error option \<times> Canvas" where
  "Edge_update_position c h e =
     (case get_center (h ! e_source e) of Inl err \<Rightarrow> (Some err, c)
      | Inr (sx, sy) \<Rightarrow>
          (case get_center (h ! e_target e) of Inl err \<Rightarrow> (Some err, c)
           | Inr (tx, ty) \<Rightarrow>
               (let c1 = canvas_coords c (e_line_item e) [sx, sy, tx, ty]
                in if truthy (e_label_item e) then
                     (None, canvas_coords c1 (e_label_item e) [(sx + tx) / 2, (sy + ty) / 2])
                   else (None, c1))))"

section \<open>class DiagramEditor\<close>

text \<open>
  The fields of the editor that its logic reads and writes. \<open>text_editor\<close> is the
  content of the \<^verbatim>\<open>tk.Entry\<close> while one exists, \<open>palette_panel\<close> says whether
  the palette frame exists, \<open>clipboard\<close> is the system clipboard, \<open>status_label\<close>
  the text of the label \<^verbatim>\<open>copy_mermaid_to_clipboard\<close> creates on first use, and
  \<open>shown\<close> the texts of the windows \<^verbatim>\<open>generate_mermaid\<close> has opened.
  \<^verbatim>\<open>context_menu_x\<close> and \<^verbatim>\<open>context_menu_y\<close> are attributes that only
  \<^verbatim>\<open>on_right_click\<close> assigns: they are optional, and reading one before the
  first right click raises \<^verbatim>\<open>AttributeError\<close>.
\<close>

record DiagramEditor =
  canvas :: Canvas
  heap :: "Node list"
  nodes :: "(string \<times> ref) list"
  edges :: "Edge list"
  node_counter :: nat
  arrow_source :: "ref option"
  dragging_node :: "ref option"
  drag_offset_x :: int
  drag_offset_y :: int
  current_edit_node :: "ref option"
  text_editor :: "string option"
  editor_window_id :: "nat option"
  palette_panel :: bool
  context_menu_x :: "int option"
  context_menu_y :: "int option"
  clipboard :: string
  status_label :: "string option"
  shown :: "string list"

text \<open>\<^verbatim>\<open>DiagramEditor.__init__\<close>; it does not assign the context menu position.\<close>

definition DiagramEditor_init :: DiagramEditor where
  "DiagramEditor_init =
     \<lparr>canvas = \<lparr>next_item = 1, items = Map.empty\<rparr>, heap = [], nodes = [], edges = [],
      node_counter = 0, arrow_source = None, dragging_node = None,
      drag_offset_x = 0, drag_offset_y = 0, current_edit_node = None,
      text_editor = None, editor_window_id = None, palette_panel = False,
      context_menu_x = None, context_menu_y = None, clipboard = [], status_label = None,
      shown = []\<rparr>"

definition get_new_node_id :: "DiagramEditor \<Rightarrow> string \<times> DiagramEditor" where
  "get_new_node_id s =
     (let node_id = (if node_counter s < 26 then [char_of (65 + node_counter s)]
                     else ''N'' @ str (node_counter s))
      in (node_id, s\<lparr>node_counter := node_counter s + 1\<rparr>))"

definition on_right_click :: "DiagramEditor \<Rightarrow> int \<Rightarrow> int \<Rightarrow> DiagramEditor" where
  "on_right_click s x y = s\<lparr>context_menu_x := Some x, context_menu_y := Some y\<rparr>"

definition remove_text_editor :: "DiagramEditor \<Rightarrow> DiagramEditor" where
  "remove_text_editor s =
     (if text_editor s \<noteq> None then
        s\<lparr>canvas := canvas_delete (canvas s) (editor_window_id s),
          text_editor := None, editor_window_id := None\<rparr>
      else s)"

definition show_palette_panel :: "DiagramEditor \<Rightarrow> DiagramEditor" where
  "show_palette_panel s = s\<lparr>palette_panel := True\<rparr>"

definition hide_palette_panel :: "DiagramEditor \<Rightarrow> DiagramEditor" where
  "hide_palette_panel s = (if palette_panel s then s\<lparr>palette_panel := False\<rparr> else s)"

definition stop_editing :: "DiagramEditor \<Rightarrow> DiagramEditor" where
  "stop_editing s = (hide_palette_panel (remove_text_editor s))\<lparr>current_edit_node := None\<rparr>"

definition start_editing_node :: "DiagramEditor \<Rightarrow> ref \<Rightarrow> error option \<times> DiagramEditor" where
  "start_editing_node s node =
     (let s1 = (if current_edit_node s \<noteq> None \<and> current_edit_node s \<noteq> Some node
                then stop_editing s else s);
          s2 = s1\<lparr>current_edit_node := Some node\<rparr>
      in if text_editor s2 \<noteq> None then (None, s2)
         else
           (let s3 = s2\<lparr>text_editor := Some (n_text (heap s2 ! node))\<rparr>
            in case get_center (heap s3 ! node) of Inl e \<Rightarrow> (Some e, s3)
               | Inr (cx, cy) \<Rightarrow>
                   (let (w, c1) = canvas_create (canvas s3) ''window'' [cx, cy] [];
                        s4 = show_palette_panel (s3\<lparr>canvas := c1, editor_window_id := Some w\<rparr>)
                    in case arrow_source s4 of None \<Rightarrow> (None, s4)
                       | Some src \<Rightarrow>
                           (None, s4\<lparr>canvas := highlight (canvas s4) (heap s4 ! src) False,
                                     arrow_source := None\<rparr>))))"

text \<open>
  The handler that \<^verbatim>\<open>start_editing_node\<close> binds to \<^verbatim>\<open><KeyRelease>\<close> on the entry:
  \<open>node\<close> is the node the entry was opened for, \<open>t\<close> the content of the entry after
  the key.
\<close>

definition on_key_release :: "DiagramEditor \<Rightarrow> ref \<Rightarrow> string \<Rightarrow> DiagramEditor" where
  "on_key_release s node t =
     (let (n', c') = update_text (canvas s) (heap s ! node) t
      in s\<lparr>canvas := c', heap := (heap s)[node := n'], text_editor := Some t\<rparr>)"

text \<open>
  \<^verbatim>\<open>create_node_at\<close>: the menu position is read first, before an id is issued;
  the new object is appended to the store and entered in \<^verbatim>\<open>self.nodes\<close> before
  \<^verbatim>\<open>start_editing_node\<close> runs.
\<close>

definition create_node_at :: "DiagramEditor \<Rightarrow> string \<Rightarrow> error option \<times> DiagramEditor" where
  "create_node_at s shape =
     (case attr (context_menu_x s) of Inl e \<Rightarrow> (Some e, s)
      | Inr x \<Rightarrow>
          (case attr (context_menu_y s) of Inl e \<Rightarrow> (Some e, s)
           | Inr y \<Rightarrow>
               (let (node_id, s1) = get_new_node_id s
                in case Node_init (canvas s1) node_id x y ''Node'' shape ''#FFFFFF'' of
                     Inl e \<Rightarrow> (Some e, s1)
                   | Inr (new_node, c1) \<Rightarrow>
                       (let r = length (heap s1);
                            s2 = s1\<lparr>canvas := c1, heap := heap s1 @ [new_node],
                                    nodes := dict_set (nodes s1) node_id r\<rparr>
                        in start_editing_node s2 r))))"

definition finish_editing :: "DiagramEditor \<Rightarrow> DiagramEditor" where
  "finish_editing s =
     (let s1 = (case (current_edit_node s, text_editor s) of
                  (Some r, Some new_text) \<Rightarrow>
                    (let (n', c') = update_text (canvas s) (heap s ! r) new_text
                     in s\<lparr>canvas := c', heap := (heap s)[r := n']\<rparr>)
                | _ \<Rightarrow> s)
      in (hide_palette_panel (remove_text_editor s1))\<lparr>current_edit_node := None\<rparr>)"

definition change_color :: "DiagramEditor \<Rightarrow> string \<Rightarrow> DiagramEditor" where
  "change_color s new_color =
     (case current_edit_node s of None \<Rightarrow> s
      | Some r \<Rightarrow>
          (let (n', c') = update_color (canvas s) (heap s ! r) new_color
           in s\<lparr>canvas := c', heap := (heap s)[r := n']\<rparr>))"

text \<open>\<^verbatim>\<open>get_node_at\<close>: the loop over \<^verbatim>\<open>self.nodes.values()\<close> with its early return.\<close>

fun get_node_at_loop :: "Node list \<Rightarrow> ref list \<Rightarrow> int \<Rightarrow> int \<Rightarrow> error + ref option" where
  "get_node_at_loop h [] x y = Inr None"
| "get_node_at_loop h (r # rs) x y =
     (case contains_point (h ! r) x y of Inl e \<Rightarrow> Inl e
      | Inr b \<Rightarrow> if b then Inr (Some r) else get_node_at_loop h rs x y)"

definition get_node_at :: "DiagramEditor \<Rightarrow> int \<Rightarrow> int \<Rightarrow> error + ref option" where
  "get_node_at s x y = get_node_at_loop (heap s) (dict_values (nodes s)) x y"

definition on_left_click :: "DiagramEditor \<Rightarrow> int \<Rightarrow> int \<Rightarrow> error option \<times> DiagramEditor" where
  "on_left_click s x y =
     (case arrow_source s of
        Some src \<Rightarrow>
          (case get_node_at s x y of Inl e \<Rightarrow> (Some e, s)
           | Inr node \<Rightarrow>
               (case node of None \<Rightarrow> (None, s)
                | Some tgt \<Rightarrow>
                    if tgt \<noteq> src then
                      (case Edge_init (canvas s) (heap s) src tgt [] of Inl e \<Rightarrow> (Some e, s)
                       | Inr (new_edge, c1) \<Rightarrow>
                           (None, s\<lparr>canvas := highlight c1 (heap s ! src) False,
                                     edges := edges s @ [new_edge],
                                     arrow_source := None\<rparr>))
                    else (None, s)))
      | None \<Rightarrow>
          (case get_node_at s x y of Inl e \<Rightarrow> (Some e, s)
           | Inr node \<Rightarrow>
               (case node of
                  Some r \<Rightarrow>
                    (case start_editing_node s r of
                       (Some e, s1) \<Rightarrow> (Some e, s1)
                     | (None, s1) \<Rightarrow>
                         (None, s1\<lparr>dragging_node := Some r,
                                   drag_offset_x := x - n_x (heap s1 ! r),
                                   drag_offset_y := y - n_y (heap s1 ! r)\<rparr>))
                | None \<Rightarrow> (None, stop_editing s))))"

definition on_double_click :: "DiagramEditor \<Rightarrow> int \<Rightarrow> int \<Rightarrow> error option \<times> DiagramEditor" where
  "on_double_click s x y =
     (case get_node_at s x y of Inl e \<Rightarrow> (Some e, s)
      | Inr node \<Rightarrow>
          (case node of None \<Rightarrow> (None, s)
           | Some r \<Rightarrow>
               (let s1 = (stop_editing s)\<lparr>arrow_source := Some r\<rparr>
                in (None, s1\<lparr>canvas := highlight (canvas s1) (heap s1 ! r) True\<rparr>))))"

text \<open>
  \<^verbatim>\<open>on_drag\<close>: the loop over \<^verbatim>\<open>self.edges\<close> redraws the edges that touch the
  dragged node; an exception leaves the loop with the canvas as redrawn so far.
\<close>

fun on_drag_loop :: "Canvas \<Rightarrow> Node list \<Rightarrow> ref \<Rightarrow> Edge list \<Rightarrow> error option \<times> Canvas" where
  "on_drag_loop c h d [] = (None, c)"
| "on_drag_loop c h d (edge # es) =
     (if e_source edge = d \<or> e_target edge = d then
        (case Edge_update_position c h edge of
           (Some err, c1) \<Rightarrow> (Some err, c1)
         | (None, c1) \<Rightarrow> on_drag_loop c1 h d es)
      else on_drag_loop c h d es)"

definition on_drag :: "DiagramEditor \<Rightarrow> int \<Rightarrow> int \<Rightarrow> error option \<times> DiagramEditor" where
  "on_drag s x y =
     (case dragging_node s of None \<Rightarrow> (None, s)
      | Some d \<Rightarrow>
          (let new_x = x - drag_offset_x s;
               new_y = y - drag_offset_y s;
               (err, n', c1) = update_position (canvas s) (heap s ! d) new_x new_y;
               s1 = s\<lparr>canvas := c1, heap := (heap s)[d := n']\<rparr>
           in case err of Some e \<Rightarrow> (Some e, s1)
              | None \<Rightarrow>
                  (if current_edit_node s1 = Some d \<and> text_editor s1 \<noteq> None then
                     (case get_center (heap s1 ! d) of Inl e \<Rightarrow> (Some e, s1)
                      | Inr (cx, cy) \<Rightarrow>
                          (let s2 = s1\<lparr>canvas := canvas_coords (canvas s1) (editor_window_id s1) [cx, cy]\<rparr>;
                               (err2, c2) = on_drag_loop (canvas s2) (heap s2) d (edges s2)
                           in (err2, s2\<lparr>canvas := c2\<rparr>)))
                   else
                     (let (err2, c2) = on_drag_loop (canvas s1) (heap s1) d (edges s1)
                      in (err2, s1\<lparr>canvas := c2\<rparr>)))))"

definition on_release :: "DiagramEditor \<Rightarrow> DiagramEditor" where
  "on_release s = s\<lparr>dragging_node := None\<rparr>"

section \<open>The serializer\<close>

definition predefined :: "(string \<times> string \<times> string) list" where
  "predefined =
     [(''#1e90ff'', ''blue'', ''#1E90FF''),
      (''#ff4500'', ''red'', ''#FF4500''),
      (''#32cd32'', ''green'', ''#32CD32''),
      (''#ffff00'', ''yellow'', ''#FFFF00''),
      (''#ffa500'', ''orange'', ''#FFA500'')]"

definition node_line :: "Node \<Rightarrow> string" where
  "node_line node =
     (if n_shape node = ''rectangle'' then ''    '' @ n_id node @ ''['' @ n_text node @ ''];''
      else if n_shape node = ''diamond'' then ''    '' @ n_id node @ ''{'' @ n_text node @ ''};''
      else ''    '' @ n_id node @ ''['' @ n_text node @ ''];'')"

definition edge_line :: "Node list \<Rightarrow> Edge \<Rightarrow> string" where
  "edge_line h edge =
     (if e_label edge \<noteq> [] then
        ''    '' @ n_id (h ! e_source edge) @ '' -- '' @ e_label edge @ '' --> ''
          @ n_id (h ! e_target edge) @ '';''
      else ''    '' @ n_id (h ! e_source edge) @ '' --> '' @ n_id (h ! e_target edge) @ '';'')"

text \<open>The loop that fills \<^verbatim>\<open>color_classes\<close>.\<close>

fun color_classes_loop :: "Node list \<Rightarrow> (string \<times> string) list \<Rightarrow> (string \<times> string) list" where
  "color_classes_loop [] color_classes = color_classes"
| "color_classes_loop (node # ns) color_classes =
     (let color = lower (n_fill node);
          class_name =
            (case map_of predefined color of
               Some p \<Rightarrow> fst p
             | None \<Rightarrow>
                 (case map_of color_classes color of
                    None \<Rightarrow> ''color'' @ str (length color_classes + 1)
                  | Some cn \<Rightarrow> cn))
      in color_classes_loop ns (dict_set color_classes color class_name))"

definition classDef_line :: "string \<times> string \<Rightarrow> string" where
  "classDef_line cc =
     ''    classDef '' @ snd cc @ '' fill:'' @ fst cc @ '',stroke:#000,stroke-width:2px;''"

text \<open>The loop that fills \<^verbatim>\<open>groups\<close>; \<^verbatim>\<open>color_classes[color]\<close> raises on a missing key.\<close>

fun groups_loop ::
  "(string \<times> string) list \<Rightarrow> Node list \<Rightarrow> (string \<times> string list) list
     \<Rightarrow> error + (string \<times> string list) list" where
  "groups_loop color_classes [] groups = Inr groups"
| "groups_loop color_classes (node # ns) groups =
     (case dict_get color_classes (lower (n_fill node)) of
        Inl e \<Rightarrow> Inl e
      | Inr class_name \<Rightarrow>
          groups_loop color_classes ns (setdefault_append groups class_name (n_id node)))"

definition class_line :: "string \<times> string list \<Rightarrow> string" where
  "class_line g = ''    class '' @ join '','' (snd g) @ '' '' @ fst g @ '';''"

text \<open>\<^verbatim>\<open>self.nodes.values()\<close>: the node objects in insertion order.\<close>

definition node_values :: "DiagramEditor \<Rightarrow> Node list" where
  "node_values s = map (\<lambda>r. heap s ! r) (dict_values (nodes s))"

definition get_mermaid_lines :: "DiagramEditor \<Rightarrow> error + string list" where
  "get_mermaid_lines s =
     (let lines = [''```mermaid'', ''graph TD;'']
                    @ map node_line (node_values s)
                    @ map (edge_line (heap s)) (edges s);
          color_classes = color_classes_loop (node_values s) [];
          lines1 = lines @ map classDef_line color_classes
      in case groups_loop color_classes (node_values s) [] of
           Inl e \<Rightarrow> Inl e
         | Inr groups \<Rightarrow> Inr (lines1 @ map class_line groups @ [''```'']))"

definition get_mermaid_code :: "DiagramEditor \<Rightarrow> error + string" where
  "get_mermaid_code s =
     (case get_mermaid_lines s of Inl e \<Rightarrow> Inl e
      | Inr lines \<Rightarrow> Inr (join [CHR 0x0A] lines))"

definition generate_mermaid :: "DiagramEditor \<Rightarrow> error option \<times> DiagramEditor" where
  "generate_mermaid s =
     (case get_mermaid_code s of Inl e \<Rightarrow> (Some e, s)
      | Inr code_str \<Rightarrow> (None, s\<lparr>shown := shown s @ [code_str]\<rparr>))"

definition copy_mermaid_to_clipboard :: "DiagramEditor \<Rightarrow> error option \<times> DiagramEditor" where
  "copy_mermaid_to_clipboard s =
     (case get_mermaid_code s of Inl e \<Rightarrow> (Some e, s)
      | Inr code_str \<Rightarrow>
          (None, s\<lparr>clipboard := code_str, status_label := Some ''Code copied to clipboard''\<rparr>))"

section \<open>Node ids\<close>

text \<open>The ids handed out by \<open>n\<close> successive calls of \<^verbatim>\<open>get_new_node_id\<close>.\<close>

fun issued_ids :: "nat \<Rightarrow> DiagramEditor \<Rightarrow> string list" where
  "issued_ids 0 s = []"
| "issued_ids (Suc n) s = fst (get_new_node_id s) # issued_ids n (snd (get_new_node_id s))"

text \<open>The id \<^verbatim>\<open>get_new_node_id\<close> returns when the counter stands at \<open>n\<close>.\<close>

definition id_at :: "nat \<Rightarrow> string" where
  "id_at n = fst (get_new_node_id (DiagramEditor_init\<lparr>node_counter := n\<rparr>))"

section \<open>The markup the specification describes\<close>






text \<open>The distinct elements of a list, in the order in which they first appear.\<close>

definition first_seen :: "'a list \<Rightarrow> 'a list" where
  "first_seen xs = fold (\<lambda>x acc. if x \<in> set acc then acc else acc @ [x]) xs []"

text \<open>
  The specification's hit test: the point lies in the axis-aligned bounding box of
  the node, whatever its shape.
\<close>

definition bounding_box_contains :: "Node \<Rightarrow> int \<Rightarrow> int \<Rightarrow> bool" where
  "bounding_box_contains node x y =
     (case (n_width node, n_height node) of
        (Some w, Some h) \<Rightarrow>
          n_x node \<le> x \<and> x \<le> n_x node + w \<and> n_y node \<le> y \<and> y \<le> n_y node + h
      | _ \<Rightarrow> False)"

text \<open>
  The class name the serializer gives to a colour that is first seen when \<open>i\<close>
  distinct colours have been seen before it: the fixed name of a predefined colour,
  else \<^verbatim>\<open>color\<close> followed by \<open>i + 1\<close>.
\<close>

definition class_name_at :: "nat \<Rightarrow> string \<Rightarrow> string" where
  "class_name_at i color =
     (case map_of predefined color of Some p \<Rightarrow> fst p | None \<Rightarrow> ''color'' @ str (i + 1))"

section \<open>Edges on the canvas\<close>

text \<open>
  What the specification's sentence about dragging speaks of. A node \<open>has_size\<close> when
  it has its width and height; an edge is \<open>incident\<close> to a node that is its source
  or its target; \<open>line_endpoints\<close> are the centres of an edge's two nodes, the
  source's first; \<open>drawn_item\<close> is the canvas item behind a handle and \<open>is_drawn\<close>
  says that there is one.
\<close>

definition has_size :: "Node \<Rightarrow> bool" where
  "has_size n = (n_width n \<noteq> None \<and> n_height n \<noteq> None)"

definition incident :: "ref \<Rightarrow> Edge \<Rightarrow> bool" where
  "incident d e = (e_source e = d \<or> e_target e = d)"

definition line_endpoints :: "Node list \<Rightarrow> Edge \<Rightarrow> error + rat list" where
  "line_endpoints h e =
     (case get_center (h ! e_source e) of Inl err \<Rightarrow> Inl err
      | Inr (sx, sy) \<Rightarrow>
          (case get_center (h ! e_target e) of Inl err \<Rightarrow> Inl err
           | Inr (tx, ty) \<Rightarrow> Inr [sx, sy, tx, ty]))"

definition drawn_item :: "Canvas \<Rightarrow> nat option \<Rightarrow> canvas_item option" where
  "drawn_item c h = (case h of None \<Rightarrow> None | Some i \<Rightarrow> items c i)"

definition is_drawn :: "Canvas \<Rightarrow> nat option \<Rightarrow> bool" where
  "is_drawn c h = (case drawn_item c h of None \<Rightarrow> False | Some it \<Rightarrow> True)"

text \<open>
  The handles an object holds, and the handles a drag of node \<open>d\<close> can write to:
  those of the node, that of the entry window, and those of the edges.
\<close>

definition handle_list :: "nat option \<Rightarrow> nat list" where
  "handle_list h = (case h of None \<Rightarrow> [] | Some i \<Rightarrow> [i])"

definition node_items :: "Node \<Rightarrow> nat list" where
  "node_items n = handle_list (n_item n) @ handle_list (n_text_item n)"

definition edge_items :: "Edge \<Rightarrow> nat list" where
  "edge_items e = handle_list (e_line_item e) @ handle_list (e_label_item e)"

definition drag_items :: "DiagramEditor \<Rightarrow> ref \<Rightarrow> nat list" where
  "drag_items s d =
     node_items (heap s ! d) @ handle_list (editor_window_id s)
     @ concat (map edge_items (edges s))"

section \<open>Event sequences\<close>

text \<open>
  The canvas handles the editor holds: those of every node, that of the entry
  window, and those of every edge. A reference is valid when it names a node of
  the store.
\<close>

definition all_items :: "DiagramEditor \<Rightarrow> nat list" where
  "all_items s =
     concat (map node_items (heap s)) @ handle_list (editor_window_id s)
     @ concat (map edge_items (edges s))"

definition valid_ref :: "DiagramEditor \<Rightarrow> ref option \<Rightarrow> bool" where
  "valid_ref s r = (case r of None \<Rightarrow> True | Some i \<Rightarrow> i < length (heap s))"

text \<open>
  The invariant of the editor: no canvas handle is held twice and every handle was
  issued by the canvas; every node has its dimensions; every edge joins two nodes
  of the store and its line is on the canvas; \<^verbatim>\<open>self.nodes\<close> and the attributes
  that hold a node refer to nodes of the store.
\<close>

definition editor_inv :: "DiagramEditor \<Rightarrow> bool" where
  "editor_inv s =
     (distinct (all_items s)
      \<and> (\<forall>i \<in> set (all_items s). i < next_item (canvas s))
      \<and> (\<forall>n \<in> set (heap s). has_size n)
      \<and> (\<forall>e \<in> set (edges s). e_source e < length (heap s) \<and> e_target e < length (heap s)
             \<and> is_drawn (canvas s) (e_line_item e))
      \<and> (\<forall>r \<in> set (dict_values (nodes s)). r < length (heap s))
      \<and> valid_ref s (dragging_node s) \<and> valid_ref s (arrow_source s)
      \<and> valid_ref s (current_edit_node s))"

text \<open>
  The events the editor has handlers for: the five canvas bindings, the two menu
  commands, the bindings of the entry (a key release with the entry's new content;
  \<^verbatim>\<open><Return>\<close> and \<^verbatim>\<open><FocusOut>\<close>, both \<^verbatim>\<open>finish_editing\<close>), a palette button
  and the two toolbar buttons. An entry exists only while the node it was opened
  for is \<^verbatim>\<open>current_edit_node\<close>, so that is the node a key release writes to.
  \<open>run\<close> gives the state after a sequence of events on a new editor.
\<close>

datatype event =
    RightClick int int
  | MenuRectangle
  | MenuDiamond
  | LeftClick int int
  | DoubleClick int int
  | Drag int int
  | Release
  | KeyRelease string
  | FinishEditing
  | PaletteColor string
  | ShowCode
  | CopyCode

fun handle :: "event \<Rightarrow> DiagramEditor \<Rightarrow> DiagramEditor" where
  "handle (RightClick x y) s = on_right_click s x y"
| "handle MenuRectangle s = snd (create_node_at s ''rectangle'')"
| "handle MenuDiamond s = snd (create_node_at s ''diamond'')"
| "handle (LeftClick x y) s = snd (on_left_click s x y)"
| "handle (DoubleClick x y) s = snd (on_double_click s x y)"
| "handle (Drag x y) s = snd (on_drag s x y)"
| "handle Release s = on_release s"
| "handle (KeyRelease t) s =
     (case text_editor s of None \<Rightarrow> s
      | Some old \<Rightarrow> (case current_edit_node s of None \<Rightarrow> s
                     | Some r \<Rightarrow> on_key_release s r t))"
| "handle FinishEditing s = finish_editing s"
| "handle (PaletteColor c) s = change_color s c"
| "handle ShowCode s = snd (generate_mermaid s)"
| "handle CopyCode s = snd (copy_mermaid_to_clipboard s)"

definition run :: "event list \<Rightarrow> DiagramEditor" where
  "run es = fold handle es DiagramEditor_init"

section \<open>Example editors\<close>

text \<open>A creation request: a right click at \<open>(x, y)\<close>, then a shape chosen from the menu.\<close>

definition new_node :: "DiagramEditor \<Rightarrow> int \<Rightarrow> int \<Rightarrow> string \<Rightarrow> DiagramEditor" where
  "new_node s x y shape = snd (create_node_at (on_right_click s x y) shape)"

text \<open>
  A rectangle at (10, 10), a diamond at (200, 10), a double click on the first and a
  click on the second: the edge A \<open>\<rightarrow>\<close> B.
\<close>

definition flow_editor :: DiagramEditor where
  "flow_editor =
     (let s1 = new_node DiagramEditor_init 10 10 ''rectangle'';
          s2 = new_node s1 200 10 ''diamond'';
          s3 = snd (on_double_click s2 20 20)
      in snd (on_left_click s3 210 20))"

text \<open>
  Three rectangles, each coloured through \<^verbatim>\<open>change_color\<close> while it is being
  edited: A and B with \<^verbatim>\<open>#1E90FF\<close>, then C with \<^verbatim>\<open>#123456\<close>.
\<close>

definition blue_editor :: DiagramEditor where
  "blue_editor =
     (let s1 = change_color (new_node DiagramEditor_init 10 10 ''rectangle'') ''#1E90FF'';
          s2 = change_color (new_node s1 200 10 ''rectangle'') ''#1E90FF''
      in change_color (new_node s2 10 200 ''rectangle'') ''#123456'')"

text \<open>Two rectangles that overlap: at (10, 10) and at (50, 30).\<close>

definition overlap_editor :: DiagramEditor where
  "overlap_editor =
     new_node (new_node DiagramEditor_init 10 10 ''rectangle'') 50 30 ''rectangle''"

text \<open>
  A rectangle and a diamond, then a double click on the rectangle: the editor is
  waiting for the target of a connection from A.
\<close>

definition connecting_editor :: DiagramEditor where
  "connecting_editor =
     (let s1 = new_node DiagramEditor_init 10 10 ''rectangle'';
          s2 = new_node s1 200 10 ''diamond''
      in snd (on_double_click s2 20 20))"

text \<open>
  Rectangles A and C, a diamond B, the edges A \<open>\<rightarrow>\<close> B and B \<open>\<rightarrow>\<close> C, then a click on A:
  A is being edited and dragged, with the pointer at offset (10, 10).
\<close>

definition drag_editor :: DiagramEditor where
  "drag_editor =
     (let s1 = new_node DiagramEditor_init 10 10 ''rectangle'';
          s2 = new_node s1 200 10 ''diamond'';
          s3 = new_node s2 10 200 ''rectangle'';
          s4 = snd (on_left_click (snd (on_double_click s3 20 20)) 210 20);
          s5 = snd (on_left_click (snd (on_double_click s4 210 20)) 20 210)
      in snd (on_left_click s5 20 20))"

section \<open>Properties of the id generator\<close>

lemma str_nonempty: "str n \<noteq> []"
  by (subst str.simps) simp

lemma str_last: "last (str n) = char_of (48 + n mod 10)"
  by (subst str.simps) simp

lemma str_butlast: "butlast (str n) = (if n < 10 then [] else str (n div 10))"
  by (subst str.simps) simp

lemma digit_inj:
  assumes "char_of (48 + (a::nat) mod 10) = char_of (48 + b mod 10)"
  shows "a mod 10 = b mod 10"
proof -
  from assms have "(48 + a mod 10) mod 256 = (48 + b mod 10) mod 256"
    by (simp only: char_of_quasi_inj)
  moreover have "48 + a mod 10 < 256" "48 + b mod 10 < 256"
    by (simp_all add: add.commute trans_less_add2 less_imp_le_nat)
  ultimately show ?thesis by simp
qed

text \<open>Two numbers with the same decimal digits are equal.\<close>

lemma str_inj: "str m = str n \<Longrightarrow> m = n"
proof (induction m arbitrary: n rule: less_induct)
  case (less m)
  from less.prems have l: "last (str m) = last (str n)"
    and b: "butlast (str m) = butlast (str n)"
    by simp_all
  from l have "char_of (48 + m mod 10) = char_of (48 + n mod 10)"
    by (simp only: str_last)
  then have md: "m mod 10 = n mod 10"
    by (rule digit_inj)
  show ?case
  proof (cases "m < 10")
    case True
    with b have "n < 10" using str_nonempty [of "n div 10"]
      by (auto simp: str_butlast split: if_splits)
    with True md show ?thesis by simp
  next
    case False
    with b have n10: "\<not> n < 10" using str_nonempty [of "m div 10"]
      by (auto simp: str_butlast split: if_splits)
    with False b have "str (m div 10) = str (n div 10)" by (simp add: str_butlast)
    moreover from False have "m div 10 < m" by simp
    ultimately have "m div 10 = n div 10" by (rule less.IH [rotated])
    with md show ?thesis by (metis div_mult_mod_eq)
  qed
qed

lemma get_new_node_id_fst: "fst (get_new_node_id s) = id_at (node_counter s)"
  by (simp add: id_at_def get_new_node_id_def DiagramEditor_init_def Let_def)

lemma get_new_node_id_counter: "node_counter (snd (get_new_node_id s)) = Suc (node_counter s)"
  by (simp add: get_new_node_id_def Let_def)

lemma id_at_eq: "id_at n = (if n < 26 then [char_of (65 + n)] else ''N'' @ str n)"
  by (simp add: id_at_def get_new_node_id_def DiagramEditor_init_def Let_def)

lemma issued_ids_eq: "issued_ids n s = map id_at [node_counter s ..< node_counter s + n]"
proof (induction n arbitrary: s)
  case 0
  show ?case by simp
next
  case (Suc n)
  show ?case
    by (simp add: Suc get_new_node_id_fst get_new_node_id_counter upt_rec [of "node_counter s"])
qed

lemma id_at_inj: "id_at m = id_at n \<Longrightarrow> m = n"
proof -
  assume eq: "id_at m = id_at n"
  have len: "\<And>k. length (str k) \<ge> 1" using str_nonempty by (simp add: Suc_leI)
  show ?thesis
  proof (cases "m < 26")
    case m: True
    show ?thesis
    proof (cases "n < 26")
      case True
      with m eq have "char_of (65 + m) = char_of (65 + n)" by (simp add: id_at_eq)
      then have "(65 + m) mod 256 = (65 + n) mod 256" by (simp only: char_of_quasi_inj)
      with m True show ?thesis by simp
    next
      case False
      with m eq have "length [char_of (65 + m)] = length (''N'' @ str n)" by (simp add: id_at_eq)
      with len [of n] show ?thesis by simp
    qed
  next
    case m: False
    show ?thesis
    proof (cases "n < 26")
      case True
      with m eq have "length (''N'' @ str m) = length [char_of (65 + n)]" by (simp add: id_at_eq)
      with len [of m] show ?thesis by simp
    next
      case False
      with m eq have "str m = str n" by (simp add: id_at_eq)
      then show ?thesis by (rule str_inj)
    qed
  qed
qed

lemma letters: "j < 26 \<Longrightarrow> char_of (65 + j) = ''ABCDEFGHIJKLMNOPQRSTUVWXYZ'' ! j"
proof -
  have "\<forall>j \<in> set [0..<26]. char_of (65 + j) = ''ABCDEFGHIJKLMNOPQRSTUVWXYZ'' ! j"
    by code_simp
  then show "j < 26 \<Longrightarrow> char_of (65 + j) = ''ABCDEFGHIJKLMNOPQRSTUVWXYZ'' ! j" by simp
qed

lemma str_26: "str 26 = ''26''"
  by code_simp

text \<open>
  C1, as stated, fails: in a fresh editor the 27th call of \<^verbatim>\<open>get_new_node_id\<close>
  finds the counter at 26 and returns \<^verbatim>\<open>N26\<close>, not \<^verbatim>\<open>N27\<close>.
\<close>

theorem twenty_seventh_id_is_N26:
  "issued_ids 27 DiagramEditor_init ! (27 - 1) = ''N26'' \<and>
   issued_ids 27 DiagramEditor_init ! (27 - 1) \<noteq> ''N27''"
  by code_simp

text \<open>
  C1, amended: in a fresh editor the k-th node creation, for 1 \<le> k \<le> 26, yields the
  k-th uppercase letter as a one-character id, and the k-th creation for k > 26
  yields \<^verbatim>\<open>N\<close> followed by the decimal digits of k - 1 (the counter is read
  before it is incremented), so the 27th id is \<^verbatim>\<open>N26\<close>.
\<close>

theorem issued_id_rule:
  assumes "1 \<le> k" and "k \<le> n"
  shows "issued_ids n DiagramEditor_init ! (k - 1) =
           (if k \<le> 26 then [''ABCDEFGHIJKLMNOPQRSTUVWXYZ'' ! (k - 1)]
            else ''N'' @ str (k - 1))"
proof -
  have c0: "node_counter DiagramEditor_init = 0"
    by (simp add: DiagramEditor_init_def)
  from assms have "issued_ids n DiagramEditor_init ! (k - 1) = id_at (k - 1)"
    by (simp add: issued_ids_eq c0)
  also have "\<dots> = (if k \<le> 26 then [''ABCDEFGHIJKLMNOPQRSTUVWXYZ'' ! (k - 1)]
                    else ''N'' @ str (k - 1))"
  proof (cases "k \<le> 26")
    case True
    with assms have "k - 1 < 26" by simp
    then show ?thesis using True letters [of "k - 1"] by (simp add: id_at_eq)
  next
    case False
    then have "\<not> k - 1 < 26" by simp
    with False show ?thesis by (simp add: id_at_eq)
  qed
  finally show ?thesis .
qed

theorem issued_id_rule_witness:
  "(1::nat) \<le> 27 \<and> (27::nat) \<le> 30 \<and> issued_ids 30 DiagramEditor_init ! (27 - 1) = ''N26''
   \<and> (1::nat) \<le> 3 \<and> issued_ids 30 DiagramEditor_init ! (3 - 1) = ''C''"
  using issued_id_rule [of 27 30] issued_id_rule [of 3 30] str_26 by simp

text \<open>
  C9: the ids handed out by any number of successive node creations, from any
  state of the editor, are pairwise distinct.
\<close>

theorem issued_ids_distinct: "distinct (issued_ids n s)"
  by (simp add: issued_ids_eq distinct_map inj_on_def id_at_inj)

section \<open>Properties of the serializer\<close>

lemma dict_set_map_fst:
  "map fst (dict_set d k v) = (if k \<in> set (map fst d) then map fst d else map fst d @ [k])"
  by (induction d k v rule: dict_set.induct) auto

lemma dict_set_keys: "set (map fst (dict_set d k v)) = insert k (set (map fst d))"
  by (simp only: dict_set_map_fst) auto

lemma map_of_dict_set: "map_of (dict_set d k v) = (map_of d)(k \<mapsto> v)"
  by (induction d k v rule: dict_set.induct) auto

lemma dict_set_fresh: "k \<notin> set (map fst d) \<Longrightarrow> dict_set d k v = d @ [(k, v)]"
  by (induction d k v rule: dict_set.induct) auto

lemma dict_set_same: "map_of d k = Some v \<Longrightarrow> dict_set d k v = d"
  by (induction d k v rule: dict_set.induct) (auto split: if_splits)

lemma length_dict_set:
  "length (dict_set d k v) = (if k \<in> set (map fst d) then length d else Suc (length d))"
  by (induction d k v rule: dict_set.induct) auto

lemma color_classes_loop_keys:
  "set (map fst (color_classes_loop ns cc)) = set (map fst cc) \<union> (\<lambda>n. lower (n_fill n)) ` set ns"
proof (induction ns arbitrary: cc)
  case Nil
  show ?case by simp
next
  case (Cons n ns)
  show ?case
    by (simp only: color_classes_loop.simps Let_def Cons.IH dict_set_keys) auto
qed

lemma groups_loop_total:
  "\<forall>n \<in> set ns. lower (n_fill n) \<in> set (map fst cc) \<Longrightarrow> \<exists>g. groups_loop cc ns g0 = Inr g"
proof (induction ns arbitrary: g0)
  case Nil
  show ?case by simp
next
  case (Cons n ns)
  from Cons.prems have "lower (n_fill n) \<in> fst ` set cc" by simp
  then obtain cn where "map_of cc (lower (n_fill n)) = Some cn"
    using map_of_eq_None_iff [of cc "lower (n_fill n)"] by blast
  moreover from Cons.prems have "\<forall>n \<in> set ns. lower (n_fill n) \<in> set (map fst cc)" by simp
  then have "\<exists>g. groups_loop cc ns (setdefault_append g0 cn (n_id n)) = Inr g"
    by (rule Cons.IH)
  ultimately show ?case by (simp add: dict_get_def)
qed

lemma get_mermaid_lines_total:
  "\<exists>groups. groups_loop (color_classes_loop (node_values s) []) (node_values s) [] = Inr groups
     \<and> get_mermaid_lines s =
         Inr ([''```mermaid'', ''graph TD;'']
              @ map node_line (node_values s)
              @ map (edge_line (heap s)) (edges s)
              @ map classDef_line (color_classes_loop (node_values s) [])
              @ map class_line groups @ [''```''])"
proof -
  obtain g where "groups_loop (color_classes_loop (node_values s) []) (node_values s) [] = Inr g"
    using groups_loop_total [of "node_values s" "color_classes_loop (node_values s) []" "[]"]
    by (simp only: color_classes_loop_keys) auto
  then show ?thesis by (simp add: get_mermaid_lines_def Let_def)
qed




lemma flow_editor_output:
  "get_mermaid_code flow_editor =
     Inr (join [CHR 0x0A]
       [''```mermaid'', ''graph TD;'', ''    A[Node];'', ''    B{Node};'', ''    A --> B;'',
        ''    classDef color1 fill:#ffffff,stroke:#000,stroke-width:2px;'',
        ''    class A,B color1;'', ''```''])"
  by code_simp








text \<open>
  C10: with no nodes and no edges the serializer returns exactly the three lines
  \<^verbatim>\<open>```mermaid\<close>, \<^verbatim>\<open>graph TD;\<close> and \<^verbatim>\<open>```\<close>, joined by newlines.
\<close>

theorem empty_model_output:
  assumes "nodes s = []" and "edges s = []"
  shows "get_mermaid_code s = Inr (''```mermaid'' @ [CHR 0x0A] @ ''graph TD;'' @ [CHR 0x0A] @ ''```'')"
  using assms
  by (simp add: get_mermaid_code_def get_mermaid_lines_def node_values_def dict_values_def)

theorem empty_model_output_witness:
  "nodes DiagramEditor_init = [] \<and> edges DiagramEditor_init = [] \<and>
   get_mermaid_code DiagramEditor_init =
     Inr (''```mermaid'' @ [CHR 0x0A] @ ''graph TD;'' @ [CHR 0x0A] @ ''```'')"
proof -
  have n: "nodes DiagramEditor_init = []" and e: "edges DiagramEditor_init = []"
    by (simp_all add: DiagramEditor_init_def)
  show ?thesis
    by (intro conjI n e empty_model_output [OF n e])
qed

lemma get_mermaid_code_model:
  "heap a = heap b \<Longrightarrow> nodes a = nodes b \<Longrightarrow> edges a = edges b
     \<Longrightarrow> get_mermaid_code a = get_mermaid_code b"
  by (simp add: get_mermaid_code_def get_mermaid_lines_def node_values_def)

lemma get_mermaid_code_total: "\<exists>code_str. get_mermaid_code s = Inr code_str"
proof -
  obtain groups where "get_mermaid_lines s =
         Inr ([''```mermaid'', ''graph TD;'']
              @ map node_line (node_values s)
              @ map (edge_line (heap s)) (edges s)
              @ map classDef_line (color_classes_loop (node_values s) [])
              @ map class_line groups @ [''```''])"
    using get_mermaid_lines_total [of s] by blast
  then show ?thesis by (simp only: get_mermaid_code_def sum.case) blast
qed

text \<open>
  C5: the serializer's result depends only on the nodes and edges of the model, it
  always returns a string (never raises), and the two export actions, which record
  that string in the clipboard or in a new window, leave the model such that the
  serializer returns the same string again.
\<close>

theorem export_is_pure:
  "(heap s = heap s' \<and> nodes s = nodes s' \<and> edges s = edges s'
      \<longrightarrow> get_mermaid_code s = get_mermaid_code s')
   \<and> (\<exists>code_str. get_mermaid_code s = Inr code_str
        \<and> fst (copy_mermaid_to_clipboard s) = None
        \<and> clipboard (snd (copy_mermaid_to_clipboard s)) = code_str
        \<and> get_mermaid_code (snd (copy_mermaid_to_clipboard s)) = Inr code_str
        \<and> fst (generate_mermaid s) = None
        \<and> shown (snd (generate_mermaid s)) = shown s @ [code_str]
        \<and> get_mermaid_code (snd (generate_mermaid s)) = Inr code_str)"
proof -
  obtain code_str where c: "get_mermaid_code s = Inr code_str"
    using get_mermaid_code_total [of s] by blast
  have cp: "copy_mermaid_to_clipboard s =
      (None, s\<lparr>clipboard := code_str, status_label := Some ''Code copied to clipboard''\<rparr>)"
    by (simp add: copy_mermaid_to_clipboard_def c)
  have gn: "generate_mermaid s = (None, s\<lparr>shown := shown s @ [code_str]\<rparr>)"
    by (simp add: generate_mermaid_def c)
  have c1: "get_mermaid_code (snd (copy_mermaid_to_clipboard s)) = get_mermaid_code s"
    unfolding cp by (rule get_mermaid_code_model) simp_all
  have c2: "get_mermaid_code (snd (generate_mermaid s)) = get_mermaid_code s"
    unfolding gn by (rule get_mermaid_code_model) simp_all
  have second: "get_mermaid_code s = Inr code_str
        \<and> fst (copy_mermaid_to_clipboard s) = None
        \<and> clipboard (snd (copy_mermaid_to_clipboard s)) = code_str
        \<and> get_mermaid_code (snd (copy_mermaid_to_clipboard s)) = Inr code_str
        \<and> fst (generate_mermaid s) = None
        \<and> shown (snd (generate_mermaid s)) = shown s @ [code_str]
        \<and> get_mermaid_code (snd (generate_mermaid s)) = Inr code_str"
    using c c1 c2 by (simp add: cp gn)
  show ?thesis
  proof (intro conjI impI exI)
    assume "heap s = heap s' \<and> nodes s = nodes s' \<and> edges s = edges s'"
    then show "get_mermaid_code s = get_mermaid_code s'"
      by (intro get_mermaid_code_model) simp_all
  qed (use second in \<open>simp_all\<close>)
qed

theorem export_is_pure_witness:
  "heap flow_editor = heap (on_right_click flow_editor 5 5)
   \<and> nodes flow_editor = nodes (on_right_click flow_editor 5 5)
   \<and> edges flow_editor = edges (on_right_click flow_editor 5 5)
   \<and> get_mermaid_code flow_editor = get_mermaid_code (on_right_click flow_editor 5 5)"
  using export_is_pure [of flow_editor "on_right_click flow_editor 5 5"]
  by (simp add: on_right_click_def)

section \<open>Colour classes\<close>

lemma class_name_step:
  assumes d: "distinct (map fst cc)"
    and n: "\<forall>i<length cc. snd (cc ! i) = class_name_at i (fst (cc ! i))"
  shows "dict_set cc color
           (case map_of predefined color of
              Some p \<Rightarrow> fst p
            | None \<Rightarrow> (case map_of cc color of
                         None \<Rightarrow> ''color'' @ str (length cc + 1)
                       | Some cn \<Rightarrow> cn))
         = (if color \<in> set (map fst cc) then cc
            else cc @ [(color, class_name_at (length cc) color)])"
proof (cases "color \<in> set (map fst cc)")
  case True
  then obtain v where v: "map_of cc color = Some v"
    using map_of_eq_None_iff [of cc color] by auto
  then have "(color, v) \<in> set cc" by (rule map_of_SomeD)
  then obtain i where i: "i < length cc" "cc ! i = (color, v)"
    by (auto simp: in_set_conv_nth)
  with n have "v = class_name_at i color" by fastforce
  then have "(case map_of predefined color of
              Some p \<Rightarrow> fst p
            | None \<Rightarrow> (case map_of cc color of
                         None \<Rightarrow> ''color'' @ str (length cc + 1)
                       | Some cn \<Rightarrow> cn)) = v"
    using v by (simp add: class_name_at_def split: option.splits)
  with v True show ?thesis by (simp add: dict_set_same)
next
  case False
  then have "map_of cc color = None"
    using map_of_eq_None_iff [of cc color] by simp
  then have "(case map_of predefined color of
              Some p \<Rightarrow> fst p
            | None \<Rightarrow> (case map_of cc color of
                         None \<Rightarrow> ''color'' @ str (length cc + 1)
                       | Some cn \<Rightarrow> cn)) = class_name_at (length cc) color"
    by (simp add: class_name_at_def split: option.splits)
  with False show ?thesis by (simp add: dict_set_fresh)
qed

lemma color_classes_loop_names:
  assumes "distinct (map fst cc)"
    and "\<forall>i<length cc. snd (cc ! i) = class_name_at i (fst (cc ! i))"
  shows "distinct (map fst (color_classes_loop ns cc))
     \<and> (\<forall>i<length (color_classes_loop ns cc).
           snd (color_classes_loop ns cc ! i)
             = class_name_at i (fst (color_classes_loop ns cc ! i)))
     \<and> map fst (color_classes_loop ns cc)
         = fold (\<lambda>x acc. if x \<in> set acc then acc else acc @ [x])
             (map (\<lambda>n. lower (n_fill n)) ns) (map fst cc)"
  using assms
proof (induction ns arbitrary: cc)
  case Nil
  then show ?case by simp
next
  case (Cons n ns)
  let ?color = "lower (n_fill n)"
  let ?cc = "if ?color \<in> set (map fst cc) then cc
             else cc @ [(?color, class_name_at (length cc) ?color)]"
  have step: "color_classes_loop (n # ns) cc = color_classes_loop ns ?cc"
    using class_name_step [OF Cons.prems, of ?color]
    by (simp only: color_classes_loop.simps Let_def)
  have d: "distinct (map fst ?cc)" using Cons.prems(1) by simp
  have nm: "\<forall>i<length ?cc. snd (?cc ! i) = class_name_at i (fst (?cc ! i))"
    using Cons.prems(2) by (auto simp: nth_append less_Suc_eq)
  have f: "fold (\<lambda>x acc. if x \<in> set acc then acc else acc @ [x])
               (map (\<lambda>n. lower (n_fill n)) (n # ns)) (map fst cc)
           = fold (\<lambda>x acc. if x \<in> set acc then acc else acc @ [x])
               (map (\<lambda>n. lower (n_fill n)) ns) (map fst ?cc)"
    by simp
  show ?case
    unfolding step f by (rule Cons.IH [OF d nm])
qed


lemma lower_1E90FF: "lower ''#1E90FF'' = ''#1e90ff''"
  by code_simp

lemma lower_123456: "lower ''#123456'' = ''#123456''"
  by code_simp

lemma str_1: "str (Suc 0) = ''1''"
  by code_simp

lemma str_2: "str (Suc (Suc 0)) = ''2''"
  by code_simp

lemma predefined_1e90ff: "map_of predefined ''#1e90ff'' = Some (''blue'', ''#1E90FF'')"
  by (simp add: predefined_def)

lemma predefined_123456: "map_of predefined ''#123456'' = None"
  by (simp add: predefined_def)

lemmas scenario_simps =
  lower_1E90FF lower_123456 str_1 str_2 predefined_1e90ff predefined_123456 dict_get_def Let_def

lemma scenario_BBO:
  assumes "n_fill a = ''#1E90FF''" "n_fill b = ''#1E90FF''" "n_fill c = ''#123456''"
  shows "color_classes_loop [a, b, c] [] = [(''#1e90ff'', ''blue''), (''#123456'', ''color2'')]"
    and "groups_loop [(''#1e90ff'', ''blue''), (''#123456'', ''color2'')] [a, b, c] []
           = Inr [(''blue'', [n_id a, n_id b]), (''color2'', [n_id c])]"
  by (simp_all add: assms scenario_simps)

lemma scenario_BOB:
  assumes "n_fill a = ''#1E90FF''" "n_fill b = ''#123456''" "n_fill c = ''#1E90FF''"
  shows "color_classes_loop [a, b, c] [] = [(''#1e90ff'', ''blue''), (''#123456'', ''color2'')]"
    and "groups_loop [(''#1e90ff'', ''blue''), (''#123456'', ''color2'')] [a, b, c] []
           = Inr [(''blue'', [n_id a, n_id c]), (''color2'', [n_id b])]"
  by (simp_all add: assms scenario_simps)

lemma scenario_OBB:
  assumes "n_fill a = ''#123456''" "n_fill b = ''#1E90FF''" "n_fill c = ''#1E90FF''"
  shows "color_classes_loop [a, b, c] [] = [(''#123456'', ''color1''), (''#1e90ff'', ''blue'')]"
    and "groups_loop [(''#123456'', ''color1''), (''#1e90ff'', ''blue'')] [a, b, c] []
           = Inr [(''color1'', [n_id a]), (''blue'', [n_id b, n_id c])]"
  by (simp_all add: assms scenario_simps)


lemma get_mermaid_lines_of_groups:
  assumes "groups_loop (color_classes_loop (node_values s) []) (node_values s) [] = Inr groups"
  shows "get_mermaid_lines s =
           Inr ([''```mermaid'', ''graph TD;'']
                @ map node_line (node_values s)
                @ map (edge_line (heap s)) (edges s)
                @ map classDef_line (color_classes_loop (node_values s) [])
                @ map class_line groups @ [''```''])"
  using assms by (simp add: get_mermaid_lines_def Let_def)

text \<open>
  C2, as stated, fails: with the two \<^verbatim>\<open>#1E90FF\<close> nodes created before the
  \<^verbatim>\<open>#123456\<close> node, \<^verbatim>\<open>len(color_classes)\<close> is already 1 when the second colour
  is named, so its class is \<^verbatim>\<open>color2\<close>, not \<^verbatim>\<open>color1\<close>.
\<close>

theorem blue_before_other_gets_color2:
  "map n_fill (node_values blue_editor) = [''#1E90FF'', ''#1E90FF'', ''#123456'']
   \<and> get_mermaid_lines blue_editor =
       Inr [''```mermaid'', ''graph TD;'', ''    A[Node];'', ''    B[Node];'', ''    C[Node];'',
            ''    classDef blue fill:#1e90ff,stroke:#000,stroke-width:2px;'',
            ''    classDef color2 fill:#123456,stroke:#000,stroke-width:2px;'',
            ''    class A,B blue;'', ''    class C color2;'', ''```'']
   \<and> get_mermaid_lines blue_editor \<noteq>
       Inr [''```mermaid'', ''graph TD;'', ''    A[Node];'', ''    B[Node];'', ''    C[Node];'',
            ''    classDef blue fill:#1e90ff,stroke:#000,stroke-width:2px;'',
            ''    classDef color1 fill:#123456,stroke:#000,stroke-width:2px;'',
            ''    class A,B blue;'', ''    class C color1;'', ''```'']"
  by code_simp

text \<open>
  C2, amended: for a model of exactly two nodes with fill \<^verbatim>\<open>#1E90FF\<close> and one
  with fill \<^verbatim>\<open>#123456\<close>, in any order, the serializer emits two classDef lines and
  two class lines that partition the three ids by fill; the first class is
  \<^verbatim>\<open>blue\<close>, and the other is \<^verbatim>\<open>color1\<close> when the \<^verbatim>\<open>#123456\<close> node comes first
  and \<^verbatim>\<open>color2\<close> otherwise. In general the classes are the distinct lower-cased
  colours in order of first appearance, and the one at position \<open>i\<close> (from 0) that
  is not predefined is named \<^verbatim>\<open>color\<close> followed by \<open>i + 1\<close>: predefined colours
  count too.
\<close>

theorem color_class_names:
  assumes nv: "node_values s = [a, b, c]"
    and fills: "map n_fill [a, b, c] = [''#1E90FF'', ''#1E90FF'', ''#123456'']
              \<or> map n_fill [a, b, c] = [''#1E90FF'', ''#123456'', ''#1E90FF'']
              \<or> map n_fill [a, b, c] = [''#123456'', ''#1E90FF'', ''#1E90FF'']"
  shows "get_mermaid_lines s =
           Inr ([''```mermaid'', ''graph TD;'']
                @ map node_line [a, b, c]
                @ map (edge_line (heap s)) (edges s)
                @ (if n_fill a = ''#123456'' then
                     [''    classDef color1 fill:#123456,stroke:#000,stroke-width:2px;'',
                      ''    classDef blue fill:#1e90ff,stroke:#000,stroke-width:2px;'',
                      ''    class '' @ n_id a @ '' color1;'',
                      ''    class '' @ n_id b @ '','' @ n_id c @ '' blue;'']
                   else
                     [''    classDef blue fill:#1e90ff,stroke:#000,stroke-width:2px;'',
                      ''    classDef color2 fill:#123456,stroke:#000,stroke-width:2px;'',
                      ''    class '' @ join '','' (map n_id (filter (\<lambda>n. n_fill n = ''#1E90FF'') [a, b, c]))
                        @ '' blue;'',
                      ''    class '' @ join '','' (map n_id (filter (\<lambda>n. n_fill n = ''#123456'') [a, b, c]))
                        @ '' color2;''])
                @ [''```''])
       \<and> map fst (color_classes_loop ns []) = first_seen (map (\<lambda>n. lower (n_fill n)) ns)
       \<and> (\<forall>i<length (color_classes_loop ns []).
             snd (color_classes_loop ns [] ! i) = class_name_at i (fst (color_classes_loop ns [] ! i)))"
proof -
  have general: "map fst (color_classes_loop ns []) = first_seen (map (\<lambda>n. lower (n_fill n)) ns)
       \<and> (\<forall>i<length (color_classes_loop ns []).
             snd (color_classes_loop ns [] ! i) = class_name_at i (fst (color_classes_loop ns [] ! i)))"
    using color_classes_loop_names [of "[]" ns] by (simp add: first_seen_def)
  from fills consider
      (BBO) "n_fill a = ''#1E90FF''" "n_fill b = ''#1E90FF''" "n_fill c = ''#123456''"
    | (BOB) "n_fill a = ''#1E90FF''" "n_fill b = ''#123456''" "n_fill c = ''#1E90FF''"
    | (OBB) "n_fill a = ''#123456''" "n_fill b = ''#1E90FF''" "n_fill c = ''#1E90FF''"
    by auto
  then have "get_mermaid_lines s =
           Inr ([''```mermaid'', ''graph TD;'']
                @ map node_line [a, b, c]
                @ map (edge_line (heap s)) (edges s)
                @ (if n_fill a = ''#123456'' then
                     [''    classDef color1 fill:#123456,stroke:#000,stroke-width:2px;'',
                      ''    classDef blue fill:#1e90ff,stroke:#000,stroke-width:2px;'',
                      ''    class '' @ n_id a @ '' color1;'',
                      ''    class '' @ n_id b @ '','' @ n_id c @ '' blue;'']
                   else
                     [''    classDef blue fill:#1e90ff,stroke:#000,stroke-width:2px;'',
                      ''    classDef color2 fill:#123456,stroke:#000,stroke-width:2px;'',
                      ''    class '' @ join '','' (map n_id (filter (\<lambda>n. n_fill n = ''#1E90FF'') [a, b, c]))
                        @ '' blue;'',
                      ''    class '' @ join '','' (map n_id (filter (\<lambda>n. n_fill n = ''#123456'') [a, b, c]))
                        @ '' color2;''])
                @ [''```''])"
  proof cases
    case BBO
    have "groups_loop (color_classes_loop (node_values s) []) (node_values s) []
            = Inr [(''blue'', [n_id a, n_id b]), (''color2'', [n_id c])]"
      unfolding nv scenario_BBO(1) [OF BBO] by (rule scenario_BBO(2) [OF BBO])
    from get_mermaid_lines_of_groups [OF this] show ?thesis
      unfolding nv scenario_BBO(1) [OF BBO]
      by (simp add: BBO classDef_line_def class_line_def)
  next
    case BOB
    have "groups_loop (color_classes_loop (node_values s) []) (node_values s) []
            = Inr [(''blue'', [n_id a, n_id c]), (''color2'', [n_id b])]"
      unfolding nv scenario_BOB(1) [OF BOB] by (rule scenario_BOB(2) [OF BOB])
    from get_mermaid_lines_of_groups [OF this] show ?thesis
      unfolding nv scenario_BOB(1) [OF BOB]
      by (simp add: BOB classDef_line_def class_line_def)
  next
    case OBB
    have "groups_loop (color_classes_loop (node_values s) []) (node_values s) []
            = Inr [(''color1'', [n_id a]), (''blue'', [n_id b, n_id c])]"
      unfolding nv scenario_OBB(1) [OF OBB] by (rule scenario_OBB(2) [OF OBB])
    from get_mermaid_lines_of_groups [OF this] show ?thesis
      unfolding nv scenario_OBB(1) [OF OBB]
      by (simp add: OBB classDef_line_def class_line_def)
  qed
  with general show ?thesis by (rule conjI [rotated])
qed

lemma blue_editor_node_values:
  "node_values blue_editor = [heap blue_editor ! 0, heap blue_editor ! 1, heap blue_editor ! 2]"
  by code_simp

lemma blue_editor_fills:
  "map n_fill [heap blue_editor ! 0, heap blue_editor ! 1, heap blue_editor ! 2]
     = [''#1E90FF'', ''#1E90FF'', ''#123456'']"
  by code_simp

theorem color_class_names_witness:
  "node_values blue_editor = [heap blue_editor ! 0, heap blue_editor ! 1, heap blue_editor ! 2]
   \<and> map n_fill [heap blue_editor ! 0, heap blue_editor ! 1, heap blue_editor ! 2]
        = [''#1E90FF'', ''#1E90FF'', ''#123456'']
   \<and> get_mermaid_lines blue_editor =
       Inr [''```mermaid'', ''graph TD;'', ''    A[Node];'', ''    B[Node];'', ''    C[Node];'',
            ''    classDef blue fill:#1e90ff,stroke:#000,stroke-width:2px;'',
            ''    classDef color2 fill:#123456,stroke:#000,stroke-width:2px;'',
            ''    class A,B blue;'', ''    class C color2;'', ''```'']
   \<and> map fst (color_classes_loop (node_values blue_editor) [])
        = first_seen (map (\<lambda>n. lower (n_fill n)) (node_values blue_editor))"
proof -
  have fills: "map n_fill [heap blue_editor ! 0, heap blue_editor ! 1, heap blue_editor ! 2]
                 = [''#1E90FF'', ''#1E90FF'', ''#123456'']
             \<or> map n_fill [heap blue_editor ! 0, heap blue_editor ! 1, heap blue_editor ! 2]
                 = [''#1E90FF'', ''#123456'', ''#1E90FF'']
             \<or> map n_fill [heap blue_editor ! 0, heap blue_editor ! 1, heap blue_editor ! 2]
                 = [''#123456'', ''#1E90FF'', ''#1E90FF'']"
    using blue_editor_fills by (rule disjI1)
  have lines: "get_mermaid_lines blue_editor =
       Inr [''```mermaid'', ''graph TD;'', ''    A[Node];'', ''    B[Node];'', ''    C[Node];'',
            ''    classDef blue fill:#1e90ff,stroke:#000,stroke-width:2px;'',
            ''    classDef color2 fill:#123456,stroke:#000,stroke-width:2px;'',
            ''    class A,B blue;'', ''    class C color2;'', ''```'']"
    by code_simp
  from color_class_names [OF blue_editor_node_values fills, of "node_values blue_editor"]
  have "map fst (color_classes_loop (node_values blue_editor) [])
        = first_seen (map (\<lambda>n. lower (n_fill n)) (node_values blue_editor))"
    by (elim conjE)
  with blue_editor_node_values blue_editor_fills lines show ?thesis
    by (intro conjI)
qed

section \<open>Hit testing\<close>

lemma contains_point_bounding_box:
  assumes "n_width node \<noteq> None" and "n_height node \<noteq> None"
  shows "contains_point node x y = Inr (bounding_box_contains node x y)"
  using assms
  by (auto simp: contains_point_def bounding_box_contains_def attr_def)

lemma get_node_at_loop_find:
  assumes "\<forall>r \<in> set rs. n_width (h ! r) \<noteq> None \<and> n_height (h ! r) \<noteq> None"
  shows "get_node_at_loop h rs x y = Inr (find (\<lambda>r. bounding_box_contains (h ! r) x y) rs)"
  using assms
proof (induction rs)
  case Nil
  show ?case by simp
next
  case (Cons r rs)
  then have "contains_point (h ! r) x y = Inr (bounding_box_contains (h ! r) x y)"
    by (simp add: contains_point_bounding_box)
  with Cons show ?case by simp
qed

text \<open>
  C8: when every node has its dimensions (as every rectangle and diamond has),
  \<^verbatim>\<open>get_node_at\<close> returns the first node, in the order of \<^verbatim>\<open>self.nodes\<close>, whose
  bounding box contains the point, and \<^verbatim>\<open>None\<close> exactly when no bounding box
  contains it; the test does not look at the shape.
\<close>

theorem hit_test_first_match:
  assumes "\<forall>n \<in> set (node_values s). n_width n \<noteq> None \<and> n_height n \<noteq> None"
  shows "get_node_at s x y =
           Inr (find (\<lambda>r. bounding_box_contains (heap s ! r) x y) (dict_values (nodes s)))
       \<and> (get_node_at s x y = Inr None
            \<longleftrightarrow> (\<forall>n \<in> set (node_values s). \<not> bounding_box_contains n x y))
       \<and> (get_node_at s x y = Inr (Some r)
            \<longleftrightarrow> (\<exists>i<length (dict_values (nodes s)).
                   dict_values (nodes s) ! i = r
                   \<and> bounding_box_contains (node_values s ! i) x y
                   \<and> (\<forall>j<i. \<not> bounding_box_contains (node_values s ! j) x y)))
       \<and> contains_point (n\<lparr>n_shape := shape\<rparr>) x y = contains_point n x y"
proof -
  have f: "get_node_at s x y =
           Inr (find (\<lambda>r. bounding_box_contains (heap s ! r) x y) (dict_values (nodes s)))"
    unfolding get_node_at_def
    using assms by (intro get_node_at_loop_find) (simp add: node_values_def)
  have n: "get_node_at s x y = Inr None
            \<longleftrightarrow> (\<forall>n \<in> set (node_values s). \<not> bounding_box_contains n x y)"
    unfolding f by (auto simp: find_None_iff node_values_def)
  have sm: "get_node_at s x y = Inr (Some r)
            \<longleftrightarrow> (\<exists>i<length (dict_values (nodes s)).
                   dict_values (nodes s) ! i = r
                   \<and> bounding_box_contains (node_values s ! i) x y
                   \<and> (\<forall>j<i. \<not> bounding_box_contains (node_values s ! j) x y))"
    unfolding f by (auto simp: find_Some_iff node_values_def)
  have sh: "contains_point (n\<lparr>n_shape := shape\<rparr>) x y = contains_point n x y"
    by (simp add: contains_point_def split: sum.splits)
  from f n sm sh show ?thesis by (intro conjI)
qed

lemma overlap_editor_heap:
  "heap overlap_editor =
     [\<lparr>n_id = ''A'', n_x = 10, n_y = 10, n_text = ''Node'', n_shape = ''rectangle'',
        n_fill = ''#FFFFFF'', n_width = Some 100, n_height = Some 50,
        n_item = Some 1, n_text_item = Some 2\<rparr>,
      \<lparr>n_id = ''B'', n_x = 50, n_y = 30, n_text = ''Node'', n_shape = ''rectangle'',
        n_fill = ''#FFFFFF'', n_width = Some 100, n_height = Some 50,
        n_item = Some 4, n_text_item = Some 5\<rparr>]"
  by code_simp

lemma overlap_editor_nodes: "nodes overlap_editor = [(''A'', 0), (''B'', 1)]"
  by code_simp

theorem hit_test_first_match_witness:
  "map n_width (node_values overlap_editor) = [Some 100, Some 100]
   \<and> map n_height (node_values overlap_editor) = [Some 50, Some 50]
   \<and> bounding_box_contains (node_values overlap_editor ! 0) 60 40
   \<and> bounding_box_contains (node_values overlap_editor ! 1) 60 40
   \<and> get_node_at overlap_editor 60 40 = Inr (Some 0)
   \<and> get_node_at overlap_editor 120 70 = Inr (Some 1)
   \<and> get_node_at overlap_editor 300 300 = Inr None"
proof -
  have nv: "node_values overlap_editor = heap overlap_editor"
    by (simp add: node_values_def dict_values_def overlap_editor_nodes overlap_editor_heap)
  have h: "\<forall>n \<in> set (node_values overlap_editor). n_width n \<noteq> None \<and> n_height n \<noteq> None"
    by (simp add: nv overlap_editor_heap)
  have "get_node_at overlap_editor x y =
           Inr (find (\<lambda>r. bounding_box_contains (heap overlap_editor ! r) x y)
                  (dict_values (nodes overlap_editor)))" for x y
    by (rule hit_test_first_match [OF h, THEN conjunct1])
  then show ?thesis
    by (simp add: nv overlap_editor_heap overlap_editor_nodes dict_values_def
        bounding_box_contains_def)
qed

section \<open>Connection mode\<close>

text \<open>
  C4, as stated, fails in its second half: while a connection is pending, a click on
  the source node itself takes the branch that only returns, so
  \<^verbatim>\<open>arrow_source\<close> stays set.
\<close>

theorem click_on_source_keeps_connecting:
  "arrow_source connecting_editor = Some 0
   \<and> get_node_at connecting_editor 20 20 = Inr (Some 0)
   \<and> edges (snd (on_left_click connecting_editor 20 20)) = edges connecting_editor
   \<and> arrow_source (snd (on_left_click connecting_editor 20 20)) = Some 0
   \<and> arrow_source (snd (on_left_click connecting_editor 20 20)) \<noteq> None"
  by code_simp

text \<open>
  C4, amended: while a connection from \<open>src\<close> is pending, a click that hits
  \<open>src\<close> adds no edge and leaves the whole editor state as it was; the pending
  connection stays pending.
\<close>

theorem click_on_source_changes_nothing:
  assumes "arrow_source s = Some src" and "get_node_at s x y = Inr (Some src)"
  shows "on_left_click s x y = (None, s)"
  using assms by (simp add: on_left_click_def)

theorem click_on_source_changes_nothing_witness:
  "arrow_source connecting_editor = Some 0
   \<and> get_node_at connecting_editor 20 20 = Inr (Some 0)
   \<and> on_left_click connecting_editor 20 20 = (None, connecting_editor)"
proof -
  have a: "arrow_source connecting_editor = Some 0" by code_simp
  have g: "get_node_at connecting_editor 20 20 = Inr (Some 0)" by code_simp
  show ?thesis
    by (intro conjI a g click_on_source_changes_nothing [OF a g])
qed

section \<open>Node creation with an unrecognised shape\<close>

lemma Node_init_unknown:
  assumes "shape \<noteq> ''rectangle''" and "shape \<noteq> ''diamond''"
  shows "Node_init c node_id x y text shape fill =
           Inr (\<lparr>n_id = node_id, n_x = x, n_y = y, n_text = text, n_shape = shape,
                 n_fill = fill, n_width = None, n_height = None,
                 n_item = None, n_text_item = None\<rparr>, c)"
  using assms by (simp add: Node_init_def draw_def)

lemma stop_editing_model:
  "heap (stop_editing s) = heap s" "nodes (stop_editing s) = nodes s"
  "edges (stop_editing s) = edges s" "node_counter (stop_editing s) = node_counter s"
  by (simp_all add: stop_editing_def remove_text_editor_def hide_palette_panel_def)

lemma start_editing_node_model:
  "heap (snd (start_editing_node s r)) = heap s"
  "nodes (snd (start_editing_node s r)) = nodes s"
  "edges (snd (start_editing_node s r)) = edges s"
  "node_counter (snd (start_editing_node s r)) = node_counter s"
  by (simp_all add: start_editing_node_def stop_editing_model show_palette_panel_def Let_def
      split: sum.splits prod.splits option.splits)

lemma start_editing_node_unsized:
  assumes "n_width (heap s ! r) = None"
  shows "fst (start_editing_node s r) =
           (if text_editor s \<noteq> None \<and> (current_edit_node s = None \<or> current_edit_node s = Some r)
            then None else Some AttributeError)"
  using assms
  by (auto simp add: start_editing_node_def Let_def stop_editing_def remove_text_editor_def
      hide_palette_panel_def get_center_def attr_def)

lemma create_node_at_unset:
  "context_menu_x s = None \<or> context_menu_y s = None \<Longrightarrow>
   create_node_at s shape = (Some AttributeError, s)"
  by (auto simp add: create_node_at_def attr_def split: option.splits)

text \<open>
  C3, as stated, fails: \<^verbatim>\<open>create_node_at("circle")\<close> after a right click at
  (10, 10) on a fresh editor raises no shape error; the node is entered in
  \<^verbatim>\<open>self.nodes\<close>, and the call then ends in the \<^verbatim>\<open>AttributeError\<close> of
  \<^verbatim>\<open>get_center\<close> reading the missing width.
\<close>

theorem unknown_shape_is_inserted:
  "fst (create_node_at (on_right_click DiagramEditor_init 10 10) ''circle'') = Some AttributeError
   \<and> nodes (on_right_click DiagramEditor_init 10 10) = []
   \<and> nodes (snd (create_node_at (on_right_click DiagramEditor_init 10 10) ''circle'')) = [(''A'', 0)]
   \<and> heap (snd (create_node_at (on_right_click DiagramEditor_init 10 10) ''circle'')) =
       [\<lparr>n_id = ''A'', n_x = 10, n_y = 10, n_text = ''Node'', n_shape = ''circle'',
         n_fill = ''#FFFFFF'', n_width = None, n_height = None,
         n_item = None, n_text_item = None\<rparr>]"
  by code_simp

text \<open>
  C3, amended: for a shape other than \<^verbatim>\<open>rectangle\<close> and \<^verbatim>\<open>diamond\<close> the
  constructor succeeds, giving a node with neither width nor height and drawing
  nothing. \<^verbatim>\<open>create_node_at\<close> with such a shape fails with \<^verbatim>\<open>AttributeError\<close>,
  in one of two ways. Before any right click has set the menu position it fails at
  once and leaves the editor as it was. Once the position is set, it issues the
  next id, appends the node to the node collection under that id, advances the
  counter, and fails only afterwards, when \<^verbatim>\<open>start_editing_node\<close> reads the missing
  width; the node stays in the collection. The one case without a failure is an
  entry widget that is open and that \<^verbatim>\<open>start_editing_node\<close> keeps (no node is
  being edited, or the new node itself), where it returns before reading the width.
\<close>

theorem unknown_shape_node_is_kept:
  assumes "shape \<noteq> ''rectangle''" and "shape \<noteq> ''diamond''"
  shows "Node_init c node_id nx ny text shape fill =
           Inr (\<lparr>n_id = node_id, n_x = nx, n_y = ny, n_text = text, n_shape = shape,
                 n_fill = fill, n_width = None, n_height = None,
                 n_item = None, n_text_item = None\<rparr>, c)
       \<and> (context_menu_x s = None \<or> context_menu_y s = None \<longrightarrow>
            create_node_at s shape = (Some AttributeError, s))
       \<and> (context_menu_x s = Some x \<and> context_menu_y s = Some y \<longrightarrow>
            heap (snd (create_node_at s shape)) =
              heap s @ [\<lparr>n_id = id_at (node_counter s), n_x = x, n_y = y,
                          n_text = ''Node'', n_shape = shape,
                          n_fill = ''#FFFFFF'', n_width = None, n_height = None,
                          n_item = None, n_text_item = None\<rparr>]
            \<and> nodes (snd (create_node_at s shape)) =
                dict_set (nodes s) (id_at (node_counter s)) (length (heap s))
            \<and> node_counter (snd (create_node_at s shape)) = Suc (node_counter s)
            \<and> fst (create_node_at s shape) =
                (if text_editor s \<noteq> None
                    \<and> (current_edit_node s = None
                        \<or> current_edit_node s = Some (length (heap s)))
                 then None else Some AttributeError))"
proof (intro conjI impI)
  show "Node_init c node_id nx ny text shape fill =
           Inr (\<lparr>n_id = node_id, n_x = nx, n_y = ny, n_text = text, n_shape = shape,
                 n_fill = fill, n_width = None, n_height = None,
                 n_item = None, n_text_item = None\<rparr>, c)"
    by (rule Node_init_unknown [OF assms])
next
  assume "context_menu_x s = None \<or> context_menu_y s = None"
  then show "create_node_at s shape = (Some AttributeError, s)"
    by (rule create_node_at_unset)
next
  assume xy: "context_menu_x s = Some x \<and> context_menu_y s = Some y"
  have g: "get_new_node_id s = (id_at (node_counter s), s\<lparr>node_counter := Suc (node_counter s)\<rparr>)"
    using get_new_node_id_fst [of s] by (simp add: get_new_node_id_def Let_def)
  define s2 where "s2 = s\<lparr>node_counter := Suc (node_counter s),
           canvas := canvas s,
           heap := heap s @ [\<lparr>n_id = id_at (node_counter s), n_x = x, n_y = y,
                       n_text = ''Node'', n_shape = shape,
                       n_fill = ''#FFFFFF'', n_width = None, n_height = None,
                       n_item = None, n_text_item = None\<rparr>],
           nodes := dict_set (nodes s) (id_at (node_counter s)) (length (heap s))\<rparr>"
  have c: "create_node_at s shape = start_editing_node s2 (length (heap s))"
    using xy by (simp add: create_node_at_def attr_def g Node_init_unknown [OF assms] Let_def s2_def)
  have w: "n_width (heap s2 ! length (heap s)) = None"
    by (simp add: s2_def)
  show "heap (snd (create_node_at s shape)) =
              heap s @ [\<lparr>n_id = id_at (node_counter s), n_x = x, n_y = y,
                          n_text = ''Node'', n_shape = shape,
                          n_fill = ''#FFFFFF'', n_width = None, n_height = None,
                          n_item = None, n_text_item = None\<rparr>]"
    unfolding c by (simp add: start_editing_node_model s2_def)
  show "nodes (snd (create_node_at s shape)) =
                dict_set (nodes s) (id_at (node_counter s)) (length (heap s))"
    unfolding c by (simp add: start_editing_node_model s2_def)
  show "node_counter (snd (create_node_at s shape)) = Suc (node_counter s)"
    unfolding c by (simp add: start_editing_node_model s2_def)
  show "fst (create_node_at s shape) =
                (if text_editor s \<noteq> None
                    \<and> (current_edit_node s = None
                        \<or> current_edit_node s = Some (length (heap s)))
                 then None else Some AttributeError)"
    unfolding c start_editing_node_unsized [OF w] by (simp add: s2_def)
qed

theorem unknown_shape_node_is_kept_witness:
  "''circle'' \<noteq> ''rectangle'' \<and> ''circle'' \<noteq> ''diamond''
   \<and> context_menu_x DiagramEditor_init = None
   \<and> create_node_at DiagramEditor_init ''circle'' = (Some AttributeError, DiagramEditor_init)
   \<and> context_menu_x (on_right_click DiagramEditor_init 10 10) = Some 10
   \<and> context_menu_y (on_right_click DiagramEditor_init 10 10) = Some 10
   \<and> nodes (on_right_click DiagramEditor_init 10 10) = []
   \<and> nodes (snd (create_node_at (on_right_click DiagramEditor_init 10 10) ''circle''))
        = [(''A'', 0)]
   \<and> fst (create_node_at (on_right_click DiagramEditor_init 10 10) ''circle'')
        = Some AttributeError"
proof -
  have a: "''circle'' \<noteq> ''rectangle''" and b: "''circle'' \<noteq> ''diamond''" by simp_all
  have u: "context_menu_x DiagramEditor_init = None"
    by (simp add: DiagramEditor_init_def)
  have x: "context_menu_x (on_right_click DiagramEditor_init 10 10) = Some 10"
    and y: "context_menu_y (on_right_click DiagramEditor_init 10 10) = Some 10"
    and n: "nodes (on_right_click DiagramEditor_init 10 10) = []"
    and h: "heap (on_right_click DiagramEditor_init 10 10) = []"
    and k: "node_counter (on_right_click DiagramEditor_init 10 10) = 0"
    and t: "text_editor (on_right_click DiagramEditor_init 10 10) = None"
    by (simp_all add: on_right_click_def DiagramEditor_init_def)
  have i: "id_at 0 = ''A''" by code_simp
  have first: "create_node_at DiagramEditor_init ''circle'' = (Some AttributeError, DiagramEditor_init)"
    using unknown_shape_node_is_kept [OF a b, of _ _ _ _ _ _ DiagramEditor_init, THEN conjunct2, THEN conjunct1] u
    by simp
  have second: "nodes (snd (create_node_at (on_right_click DiagramEditor_init 10 10) ''circle''))
        = [(''A'', 0)]
      \<and> fst (create_node_at (on_right_click DiagramEditor_init 10 10) ''circle'')
        = Some AttributeError"
    using unknown_shape_node_is_kept [OF a b, of _ _ _ _ _ _ "on_right_click DiagramEditor_init 10 10" 10 10,
        THEN conjunct2, THEN conjunct2] x y
    by (simp add: n h k i t)
  from a b u first x y n second show ?thesis by (intro conjI) simp_all
qed

section \<open>Dragging\<close>

lemma items_canvas_coords:
  "items (canvas_coords c h cs) i =
     (if h = Some i then map_option (\<lambda>it. it\<lparr>it_coords := cs\<rparr>) (items c i) else items c i)"
  by (simp add: canvas_coords_def split: option.splits)

lemma canvas_coords_frame:
  "i \<notin> set (handle_list h) \<Longrightarrow> items (canvas_coords c h cs) i = items c i"
  by (auto simp add: items_canvas_coords handle_list_def)

lemma canvas_coords_dom:
  "(items (canvas_coords c h cs) i = None) = (items c i = None)"
  by (simp add: items_canvas_coords)

lemma get_center_has_size:
  "has_size n \<Longrightarrow>
   get_center n = Inr (of_int (n_x n) + of_int (the (n_width n)) / 2,
                       of_int (n_y n) + of_int (the (n_height n)) / 2)"
  by (auto simp add: has_size_def get_center_def attr_def)

lemma update_position_ok:
  assumes "has_size n"
  shows "fst (update_position c n nx ny) = None"
    and "fst (snd (update_position c n nx ny)) = n\<lparr>n_x := nx, n_y := ny\<rparr>"
  using assms
  by (auto simp add: update_position_def has_size_def rect_coords_def diamond_points_def
      get_center_def attr_def Let_def)

lemma update_position_frame:
  "i \<notin> set (node_items n) \<Longrightarrow> items (snd (snd (update_position c n nx ny))) i = items c i"
  by (auto simp add: update_position_def node_items_def Let_def canvas_coords_frame
      split: sum.splits prod.splits)

lemma update_position_dom:
  "(items (snd (snd (update_position c n nx ny))) i = None) = (items c i = None)"
  by (auto simp add: update_position_def Let_def canvas_coords_dom
      split: sum.splits prod.splits)

lemma Edge_update_position_ok:
  "has_size (h ! e_source e) \<Longrightarrow> has_size (h ! e_target e) \<Longrightarrow>
   fst (Edge_update_position c h e) = None"
  by (simp add: Edge_update_position_def get_center_has_size Let_def)

lemma Edge_update_position_frame:
  "i \<notin> set (edge_items e) \<Longrightarrow> items (snd (Edge_update_position c h e)) i = items c i"
  by (auto simp add: Edge_update_position_def edge_items_def Let_def canvas_coords_frame
      split: sum.splits prod.splits)

lemma Edge_update_position_dom:
  "(items (snd (Edge_update_position c h e)) i = None) = (items c i = None)"
  by (auto simp add: Edge_update_position_def Let_def canvas_coords_dom
      split: sum.splits prod.splits)

lemma Edge_update_position_line:
  assumes "line_endpoints h e = Inr cs" and "e_line_item e = Some l"
    and "e_label_item e \<noteq> Some l"
  shows "items (snd (Edge_update_position c h e)) l
         = map_option (\<lambda>it. it\<lparr>it_coords := cs\<rparr>) (items c l)"
  using assms
  by (auto simp add: Edge_update_position_def line_endpoints_def Let_def items_canvas_coords
      split: sum.splits prod.splits)

lemma on_drag_loop_ok:
  "\<forall>e \<in> set es. incident d e \<longrightarrow> has_size (h ! e_source e) \<and> has_size (h ! e_target e) \<Longrightarrow>
   fst (on_drag_loop c h d es) = None"
proof (induction es arbitrary: c)
  case Nil
  show ?case by simp
next
  case (Cons e es)
  show ?case
  proof (cases "incident d e")
    case True
    with Cons.prems have "fst (Edge_update_position c h e) = None"
      by (simp add: Edge_update_position_ok)
    then obtain c1 where c1: "Edge_update_position c h e = (None, c1)"
      by (cases "Edge_update_position c h e") simp
    from True have i: "e_source e = d \<or> e_target e = d" by (simp add: incident_def)
    have "on_drag_loop c h d (e # es) = on_drag_loop c1 h d es"
      using i c1 by simp
    with Cons show ?thesis by simp
  next
    case False
    then have "on_drag_loop c h d (e # es) = on_drag_loop c h d es"
      by (simp add: incident_def)
    with Cons show ?thesis by simp
  qed
qed

lemma on_drag_loop_frame:
  "\<forall>e \<in> set es. incident d e \<longrightarrow> i \<notin> set (edge_items e) \<Longrightarrow>
   items (snd (on_drag_loop c h d es)) i = items c i"
proof (induction es arbitrary: c)
  case Nil
  show ?case by simp
next
  case (Cons e es)
  show ?case
  proof (cases "incident d e")
    case True
    with Cons.prems have f: "items (snd (Edge_update_position c h e)) i = items c i"
      by (simp add: Edge_update_position_frame)
    from True have i: "e_source e = d \<or> e_target e = d" by (simp add: incident_def)
    show ?thesis
    proof (cases "Edge_update_position c h e")
      case (Pair err c1)
      show ?thesis
      proof (cases err)
        case None
        with Pair i have "on_drag_loop c h d (e # es) = on_drag_loop c1 h d es" by simp
        moreover have "items (snd (on_drag_loop c1 h d es)) i = items c1 i"
          using Cons by simp
        ultimately show ?thesis using f Pair by simp
      next
        case (Some a)
        with Pair i have "on_drag_loop c h d (e # es) = (Some a, c1)" by simp
        then show ?thesis using f Pair by simp
      qed
    qed
  next
    case False
    then have "on_drag_loop c h d (e # es) = on_drag_loop c h d es"
      by (simp add: incident_def)
    with Cons show ?thesis by simp
  qed
qed

lemma on_drag_loop_dom:
  "(items (snd (on_drag_loop c h d es)) i = None) = (items c i = None)"
proof (induction es arbitrary: c)
  case Nil
  show ?case by simp
next
  case (Cons e es)
  have f: "(items (snd (Edge_update_position c h e)) i = None) = (items c i = None)"
    by (rule Edge_update_position_dom)
  show ?case
  proof (cases "Edge_update_position c h e")
    case (Pair err c1)
    then show ?thesis using f Cons.IH by (cases err) auto
  qed
qed

lemma on_drag_loop_line:
  assumes "distinct (concat (map edge_items es))"
    and "\<forall>e \<in> set es. incident d e \<longrightarrow> has_size (h ! e_source e) \<and> has_size (h ! e_target e)"
    and "e \<in> set es" and "incident d e" and "e_line_item e = Some l"
    and "line_endpoints h e = Inr cs"
  shows "items (snd (on_drag_loop c h d es)) l
         = map_option (\<lambda>it. it\<lparr>it_coords := cs\<rparr>) (items c l)"
  using assms
proof (induction es arbitrary: c)
  case Nil
  then show ?case by simp
next
  case (Cons e0 es)
  have l_in: "l \<in> set (edge_items e)"
    using Cons.prems(5) by (simp add: edge_items_def handle_list_def)
  have d0: "distinct (edge_items e0)" and drest: "distinct (concat (map edge_items es))"
    and disj: "\<forall>e' \<in> set es. set (edge_items e0) \<inter> set (edge_items e') = {}"
    using Cons.prems(1) by auto
  show ?case
  proof (cases "e = e0")
    case True
    have lab: "e_label_item e \<noteq> Some l"
      using d0 True Cons.prems(5) by (auto simp add: edge_items_def handle_list_def)
    have inc: "e_source e0 = d \<or> e_target e0 = d"
      using Cons.prems(4) True by (simp add: incident_def)
    have ok: "fst (Edge_update_position c h e0) = None"
      using Cons.prems(2,4) True by (simp add: Edge_update_position_ok)
    then obtain c1 where c1: "Edge_update_position c h e0 = (None, c1)"
      by (cases "Edge_update_position c h e0") simp
    have step: "on_drag_loop c h d (e0 # es) = on_drag_loop c1 h d es"
      using inc c1 by simp
    have "items c1 l = map_option (\<lambda>it. it\<lparr>it_coords := cs\<rparr>) (items c l)"
      using Edge_update_position_line [OF Cons.prems(6) Cons.prems(5) lab, of c] c1 True
      by simp
    moreover have "items (snd (on_drag_loop c1 h d es)) l = items c1 l"
    proof (rule on_drag_loop_frame, intro ballI impI)
      fix e' assume "e' \<in> set es"
      with disj l_in True show "l \<notin> set (edge_items e')" by auto
    qed
    ultimately show ?thesis using step by simp
  next
    case False
    with Cons.prems(3) have mem: "e \<in> set es" by simp
    have l0: "l \<notin> set (edge_items e0)" using disj mem l_in by auto
    have prem2: "\<forall>e \<in> set es. incident d e \<longrightarrow> has_size (h ! e_source e) \<and> has_size (h ! e_target e)"
      using Cons.prems(2) by simp
    have IH: "\<And>c. items (snd (on_drag_loop c h d es)) l
         = map_option (\<lambda>it. it\<lparr>it_coords := cs\<rparr>) (items c l)"
      by (rule Cons.IH [OF drest prem2 mem Cons.prems(4) Cons.prems(5) Cons.prems(6)])
    show ?thesis
    proof (cases "incident d e0")
      case True
      then have inc: "e_source e0 = d \<or> e_target e0 = d" by (simp add: incident_def)
      have ok: "fst (Edge_update_position c h e0) = None"
        using Cons.prems(2) True by (simp add: Edge_update_position_ok)
      then obtain c1 where c1: "Edge_update_position c h e0 = (None, c1)"
        by (cases "Edge_update_position c h e0") simp
      have step: "on_drag_loop c h d (e0 # es) = on_drag_loop c1 h d es"
        using inc c1 by simp
      have "items c1 l = items c l"
        using Edge_update_position_frame [OF l0, of c h] c1 by simp
      then show ?thesis using step IH [of c1] by simp
    next
      case False
      then have "on_drag_loop c h d (e0 # es) = on_drag_loop c h d es"
        by (simp add: incident_def)
      then show ?thesis using IH [of c] by simp
    qed
  qed
qed

lemma distinct_concat_map_disjoint:
  "distinct (concat (map f xs)) \<Longrightarrow> x \<in> set xs \<Longrightarrow> y \<in> set xs \<Longrightarrow> x \<noteq> y \<Longrightarrow>
   set (f x) \<inter> set (f y) = {}"
  by (induction xs) auto

lemma drawn_item_eq:
  "(\<And>i. i \<in> set (handle_list h) \<Longrightarrow> items c' i = items c i) \<Longrightarrow>
   drawn_item c' h = drawn_item c h"
  by (cases h) (simp_all add: drawn_item_def handle_list_def)

lemma has_size_moved:
  "has_size (h[d := (h ! d)\<lparr>n_x := a, n_y := b\<rparr>] ! r) = has_size (h ! r)"
  by (cases "r = d"; cases "d < length h") (simp_all add: has_size_def list_update_beyond)

lemma on_drag_model:
  assumes dn: "dragging_node s = Some d" and sz: "has_size (heap s ! d)"
  shows "\<exists>c2. on_drag s x y =
           (fst (on_drag_loop c2
                   ((heap s)[d := (heap s ! d)\<lparr>n_x := x - drag_offset_x s,
                                               n_y := y - drag_offset_y s\<rparr>]) d (edges s)),
            s\<lparr>canvas := snd (on_drag_loop c2
                   ((heap s)[d := (heap s ! d)\<lparr>n_x := x - drag_offset_x s,
                                               n_y := y - drag_offset_y s\<rparr>]) d (edges s)),
              heap := (heap s)[d := (heap s ! d)\<lparr>n_x := x - drag_offset_x s,
                                               n_y := y - drag_offset_y s\<rparr>]\<rparr>)
         \<and> (\<forall>i. (items c2 i = None) = (items (canvas s) i = None))
         \<and> (\<forall>i. i \<notin> set (node_items (heap s ! d)) \<and> i \<notin> set (handle_list (editor_window_id s))
                \<longrightarrow> items c2 i = items (canvas s) i)"
proof -
  define nx where "nx = x - drag_offset_x s"
  define ny where "ny = y - drag_offset_y s"
  define n' where "n' = (heap s ! d)\<lparr>n_x := nx, n_y := ny\<rparr>"
  define h' where "h' = (heap s)[d := n']"
  define c1 where "c1 = snd (snd (update_position (canvas s) (heap s ! d) nx ny))"
  have up: "update_position (canvas s) (heap s ! d) nx ny = (None, n', c1)"
    using update_position_ok [OF sz, of "canvas s" nx ny]
    by (simp add: c1_def n'_def prod_eq_iff)
  have d1: "(items c1 i = None) = (items (canvas s) i = None)" for i
    unfolding c1_def by (rule update_position_dom)
  have f1: "i \<notin> set (node_items (heap s ! d)) \<Longrightarrow> items c1 i = items (canvas s) i" for i
    unfolding c1_def by (rule update_position_frame)
  show ?thesis
  proof (cases "current_edit_node s = Some d \<and> text_editor s \<noteq> None")
    case False
    have od: "on_drag s x y =
        (fst (on_drag_loop c1 h' d (edges s)),
         s\<lparr>canvas := snd (on_drag_loop c1 h' d (edges s)), heap := h'\<rparr>)"
      using False dn up
      by (auto simp add: on_drag_def Let_def nx_def [symmetric] ny_def [symmetric]
          h'_def [symmetric] split: prod.splits)
    show ?thesis
      apply (rule exI [of _ c1])
      using od d1 f1 by (simp add: h'_def n'_def nx_def ny_def)
  next
    case True
    have hs: "has_size (h' ! d)"
      using sz by (simp add: h'_def n'_def has_size_moved)
    obtain cx cy where gc: "get_center (h' ! d) = Inr (cx, cy)"
      using get_center_has_size [OF hs] by blast
    define c2 where "c2 = canvas_coords c1 (editor_window_id s) [cx, cy]"
    have od: "on_drag s x y =
        (fst (on_drag_loop c2 h' d (edges s)),
         s\<lparr>canvas := snd (on_drag_loop c2 h' d (edges s)), heap := h'\<rparr>)"
      using True dn up gc
      by (auto simp add: on_drag_def Let_def nx_def [symmetric] ny_def [symmetric]
          h'_def [symmetric] c2_def split: prod.splits)
    have d2: "(items c2 i = None) = (items (canvas s) i = None)" for i
      unfolding c2_def by (simp add: canvas_coords_dom d1)
    have f2: "i \<notin> set (node_items (heap s ! d)) \<and> i \<notin> set (handle_list (editor_window_id s))
               \<longrightarrow> items c2 i = items (canvas s) i" for i
      unfolding c2_def by (simp add: canvas_coords_frame f1)
    show ?thesis
      apply (rule exI [of _ c2])
      using od d2 f2 by (simp add: h'_def n'_def nx_def ny_def)
  qed
qed

text \<open>
  C7: a pointer move while node \<open>d\<close> is dragged, in an editor where \<open>d\<close> and the
  nodes joined to it by an edge have their dimensions, the lines of those edges are
  on the canvas, and no canvas handle is held twice among the node, the entry
  window and the edges. The handler raises nothing; the node is moved to the
  pointer position less the drag offset and the edge sequence is unchanged; every
  edge whose source or target is \<open>d\<close> has its line drawn from the centre of its
  source to the centre of its target, both taken after the move; and the line and
  the label of every other edge are the canvas items they were before. The
  conditions on the editor hold after every sequence of events on a new editor:
  that is \<open>editor_inv_run\<close> with \<open>editor_inv_drag_ready\<close>, in the last section.
\<close>

theorem drag_redraws_incident_edges:
  assumes dn: "dragging_node s = Some d"
    and sz: "has_size (heap s ! d)"
    and inc: "\<forall>e \<in> set (edges s). incident d e \<longrightarrow>
               has_size (heap s ! e_source e) \<and> has_size (heap s ! e_target e)
               \<and> is_drawn (canvas s) (e_line_item e)"
    and dist: "distinct (drag_items s d)"
  shows "fst (on_drag s x y) = None
       \<and> heap (snd (on_drag s x y)) =
           (heap s)[d := (heap s ! d)\<lparr>n_x := x - drag_offset_x s, n_y := y - drag_offset_y s\<rparr>]
       \<and> edges (snd (on_drag s x y)) = edges s
       \<and> (\<forall>e \<in> set (edges s). incident d e \<longrightarrow>
            line_endpoints (heap (snd (on_drag s x y))) e
              = Inr (rendered (canvas (snd (on_drag s x y))) (e_line_item e)))
       \<and> (\<forall>e \<in> set (edges s). \<not> incident d e \<longrightarrow>
            drawn_item (canvas (snd (on_drag s x y))) (e_line_item e)
              = drawn_item (canvas s) (e_line_item e)
            \<and> drawn_item (canvas (snd (on_drag s x y))) (e_label_item e)
              = drawn_item (canvas s) (e_label_item e))"
proof -
  define h' where
    "h' = (heap s)[d := (heap s ! d)\<lparr>n_x := x - drag_offset_x s, n_y := y - drag_offset_y s\<rparr>]"
  obtain c2 where od: "on_drag s x y =
        (fst (on_drag_loop c2 h' d (edges s)),
         s\<lparr>canvas := snd (on_drag_loop c2 h' d (edges s)), heap := h'\<rparr>)"
    and d2: "\<And>i. (items c2 i = None) = (items (canvas s) i = None)"
    and f2: "\<And>i. i \<notin> set (node_items (heap s ! d)) \<Longrightarrow>
                 i \<notin> set (handle_list (editor_window_id s)) \<Longrightarrow> items c2 i = items (canvas s) i"
    using on_drag_model [OF dn sz, of x y] unfolding h'_def by blast
  define c3 where "c3 = snd (on_drag_loop c2 h' d (edges s))"
  have hs: "has_size (h' ! r) = has_size (heap s ! r)" for r
    by (simp add: h'_def has_size_moved)
  have sized: "\<forall>e \<in> set (edges s). incident d e \<longrightarrow>
                 has_size (h' ! e_source e) \<and> has_size (h' ! e_target e)"
    using inc by (simp add: hs)
  have de: "distinct (concat (map edge_items (edges s)))"
    using dist by (simp add: drag_items_def)
  have ok: "fst (on_drag s x y) = None"
    unfolding od using on_drag_loop_ok [OF sized] by simp
  have hp: "heap (snd (on_drag s x y)) = h'" and cv: "canvas (snd (on_drag s x y)) = c3"
    and ed: "edges (snd (on_drag s x y)) = edges s"
    unfolding od c3_def by simp_all
  have line: "line_endpoints h' e = Inr (rendered c3 (e_line_item e))"
    if mem: "e \<in> set (edges s)" and i: "incident d e" for e
  proof -
    from inc mem i have s1: "has_size (h' ! e_source e)" and s2: "has_size (h' ! e_target e)"
      and dr: "is_drawn (canvas s) (e_line_item e)"
      by (simp_all add: hs)
    obtain cs where le: "line_endpoints h' e = Inr cs"
      by (simp add: line_endpoints_def get_center_has_size [OF s1] get_center_has_size [OF s2])
    from dr obtain l it where l: "e_line_item e = Some l" and it: "items (canvas s) l = Some it"
      by (auto simp add: is_drawn_def drawn_item_def split: option.splits)
    from it d2 [of l] obtain it2 where it2: "items c2 l = Some it2" by auto
    have "items c3 l = map_option (\<lambda>it. it\<lparr>it_coords := cs\<rparr>) (items c2 l)"
      unfolding c3_def by (rule on_drag_loop_line [OF de sized mem i l le])
    then have "rendered c3 (e_line_item e) = cs"
      by (simp add: rendered_def l it2)
    with le show ?thesis by simp
  qed
  have frame: "items c3 j = items (canvas s) j"
    if mem: "e \<in> set (edges s)" and i: "\<not> incident d e" and j: "j \<in> set (edge_items e)" for e j
  proof -
    from dist mem j have n1: "j \<notin> set (node_items (heap s ! d))"
      and n2: "j \<notin> set (handle_list (editor_window_id s))"
      by (auto simp add: drag_items_def)
    have "\<forall>e' \<in> set (edges s). incident d e' \<longrightarrow> j \<notin> set (edge_items e')"
    proof (intro ballI impI)
      fix e' assume m': "e' \<in> set (edges s)" and i': "incident d e'"
      with i have "e' \<noteq> e" by auto
      from distinct_concat_map_disjoint [OF de m' mem this] j
      show "j \<notin> set (edge_items e')" by auto
    qed
    then have "items c3 j = items c2 j"
      unfolding c3_def by (rule on_drag_loop_frame)
    with f2 [OF n1 n2] show ?thesis by simp
  qed
  have other: "drawn_item c3 (e_line_item e) = drawn_item (canvas s) (e_line_item e)
            \<and> drawn_item c3 (e_label_item e) = drawn_item (canvas s) (e_label_item e)"
    if mem: "e \<in> set (edges s)" and i: "\<not> incident d e" for e
  proof (intro conjI drawn_item_eq)
    fix j assume "j \<in> set (handle_list (e_line_item e))"
    then have "j \<in> set (edge_items e)" by (simp add: edge_items_def)
    then show "items c3 j = items (canvas s) j" by (rule frame [OF mem i])
  next
    fix j assume "j \<in> set (handle_list (e_label_item e))"
    then have "j \<in> set (edge_items e)" by (simp add: edge_items_def)
    then show "items c3 j = items (canvas s) j" by (rule frame [OF mem i])
  qed
  show ?thesis
    unfolding hp cv ed
    using ok line other by (simp add: h'_def)
qed

lemma drag_editor_hyps:
  "dragging_node drag_editor = Some 0"
  "has_size (heap drag_editor ! 0)"
  "\<forall>e \<in> set (edges drag_editor). incident 0 e \<longrightarrow>
               has_size (heap drag_editor ! e_source e) \<and> has_size (heap drag_editor ! e_target e)
               \<and> is_drawn (canvas drag_editor) (e_line_item e)"
  "distinct (drag_items drag_editor 0)"
  by code_simp+

theorem drag_redraws_incident_edges_witness:
  "dragging_node drag_editor = Some 0
   \<and> map (incident 0) (edges drag_editor) = [True, False]
   \<and> drag_items drag_editor 0 = [1, 2, 12, 10, 11]
   \<and> fst (on_drag drag_editor 120 220) = None
   \<and> map (\<lambda>e. rendered (canvas drag_editor) (e_line_item e)) (edges drag_editor)
       = [[60, 35, 250, 40], [250, 40, 60, 225]]
   \<and> map (\<lambda>e. rendered (canvas (snd (on_drag drag_editor 120 220))) (e_line_item e))
         (edges drag_editor)
       = [[160, 235, 250, 40], [250, 40, 60, 225]]
   \<and> map (line_endpoints (heap (snd (on_drag drag_editor 120 220)))) (edges drag_editor)
       = [Inr [160, 235, 250, 40], Inr [250, 40, 60, 225]]"
proof -
  have ok: "fst (on_drag drag_editor 120 220) = None"
    by (rule drag_redraws_incident_edges [OF drag_editor_hyps, THEN conjunct1])
  have a: "dragging_node drag_editor = Some 0" by (rule drag_editor_hyps(1))
  have b: "map (incident 0) (edges drag_editor) = [True, False]" by code_simp
  have c: "drag_items drag_editor 0 = [1, 2, 12, 10, 11]" by code_simp
  have d: "map (\<lambda>e. rendered (canvas drag_editor) (e_line_item e)) (edges drag_editor)
       = [[60, 35, 250, 40], [250, 40, 60, 225]]" by code_simp
  have e: "map (\<lambda>e. rendered (canvas (snd (on_drag drag_editor 120 220))) (e_line_item e))
         (edges drag_editor)
       = [[160, 235, 250, 40], [250, 40, 60, 225]]" by code_simp
  have f: "map (line_endpoints (heap (snd (on_drag drag_editor 120 220)))) (edges drag_editor)
       = [Inr [160, 235, 250, 40], Inr [250, 40, 60, 225]]" by code_simp
  from a b c ok d e f show ?thesis by (intro conjI)
qed

section \<open>The editor's invariant\<close>

lemma is_drawn_dom: "is_drawn c h = (\<exists>l. h = Some l \<and> items c l \<noteq> None)"
  by (auto simp add: is_drawn_def drawn_item_def split: option.splits)

lemma canvas_coords_next [simp]: "next_item (canvas_coords c h cs) = next_item c"
  by (simp add: canvas_coords_def split: option.splits)

lemma canvas_itemconfig_next [simp]: "next_item (canvas_itemconfig c h os) = next_item c"
  by (simp add: canvas_itemconfig_def split: option.splits)

lemma canvas_itemconfig_dom:
  "(items (canvas_itemconfig c h os) i = None) = (items c i = None)"
  by (simp add: canvas_itemconfig_def split: option.splits)

lemma canvas_delete_next [simp]: "next_item (canvas_delete c h) = next_item c"
  by (simp add: canvas_delete_def split: option.splits)

lemma canvas_delete_items:
  "items (canvas_delete c h) i = (if h = Some i then None else items c i)"
  by (simp add: canvas_delete_def split: option.splits)

lemma canvas_create_facts:
  "fst (canvas_create c k cs os) = next_item c"
  "next_item (snd (canvas_create c k cs os)) = Suc (next_item c)"
  "(items (snd (canvas_create c k cs os)) i = None) = (i \<noteq> next_item c \<and> items c i = None)"
  by (simp_all add: canvas_create_def Let_def)

lemma is_drawn_coords [simp]: "is_drawn (canvas_coords c h cs) l = is_drawn c l"
  by (simp add: is_drawn_dom canvas_coords_dom)

lemma is_drawn_itemconfig [simp]: "is_drawn (canvas_itemconfig c h os) l = is_drawn c l"
  by (simp add: is_drawn_dom canvas_itemconfig_dom)

lemma is_drawn_create: "is_drawn c l \<Longrightarrow> is_drawn (snd (canvas_create c k cs os)) l"
  by (auto simp add: is_drawn_dom canvas_create_facts)

lemma is_drawn_delete:
  "is_drawn c l \<Longrightarrow> l \<noteq> h \<Longrightarrow> is_drawn (canvas_delete c h) l"
  by (auto simp add: is_drawn_dom canvas_delete_items)

lemma highlight_facts [simp]:
  "next_item (highlight c n b) = next_item c"
  "is_drawn (highlight c n b) l = is_drawn c l"
  by (simp_all add: highlight_def)

lemma update_position_next [simp]:
  "next_item (snd (snd (update_position c n x y))) = next_item c"
  by (simp add: update_position_def Let_def split: sum.splits prod.splits)

lemma is_drawn_update_position [simp]:
  "is_drawn (snd (snd (update_position c n x y))) l = is_drawn c l"
  by (simp add: is_drawn_dom update_position_dom)

lemma Edge_update_position_next [simp]:
  "next_item (snd (Edge_update_position c h e)) = next_item c"
  by (simp add: Edge_update_position_def Let_def split: sum.splits prod.splits)

lemma on_drag_loop_next [simp]: "next_item (snd (on_drag_loop c h d es)) = next_item c"
proof (induction es arbitrary: c)
  case Nil
  show ?case by simp
next
  case (Cons e es)
  have f: "next_item (snd (Edge_update_position c h e)) = next_item c" by simp
  show ?case
  proof (cases "Edge_update_position c h e")
    case (Pair err c1)
    then show ?thesis using f Cons.IH by (cases err) auto
  qed
qed

lemma is_drawn_on_drag_loop [simp]: "is_drawn (snd (on_drag_loop c h d es)) l = is_drawn c l"
  by (simp add: is_drawn_dom on_drag_loop_dom)

lemma map_update_same: "f y = f (xs ! k) \<Longrightarrow> map f (xs[k := y]) = map f xs"
  by (induction xs arbitrary: k) (auto split: nat.splits)

lemma handle_list_simps [simp]: "handle_list None = []" "handle_list (Some i) = [i]"
  by (simp_all add: handle_list_def)

lemma valid_ref_simps [simp]:
  "valid_ref s None" "valid_ref s (Some i) = (i < length (heap s))"
  by (simp_all add: valid_ref_def)

lemma valid_ref_length: "length (heap s') = length (heap s) \<Longrightarrow> valid_ref s' r = valid_ref s r"
  by (cases r) simp_all

lemma line_in_items:
  "e \<in> set es \<Longrightarrow> is_drawn c (e_line_item e) \<Longrightarrow>
   \<exists>l. e_line_item e = Some l \<and> l \<in> set (concat (map edge_items es))"
  by (auto simp add: is_drawn_dom edge_items_def intro!: bexI [of _ e])

lemma editor_inv_quiet:
  assumes "editor_inv s"
    and "map node_items (heap s') = map node_items (heap s)"
    and "map has_size (heap s') = map has_size (heap s)"
    and "edges s' = edges s" and "editor_window_id s' = editor_window_id s"
    and "nodes s' = nodes s"
    and "next_item (canvas s') = next_item (canvas s)"
    and "\<And>l. is_drawn (canvas s') l = is_drawn (canvas s) l"
    and "valid_ref s (dragging_node s')" and "valid_ref s (arrow_source s')"
    and "valid_ref s (current_edit_node s')"
  shows "editor_inv s'"
proof -
  have len: "length (heap s') = length (heap s)"
    using assms(2) by (metis length_map)
  have v: "valid_ref s' r = valid_ref s r" for r
    by (rule valid_ref_length [OF len])
  have ai: "all_items s' = all_items s"
    by (simp add: all_items_def assms(2,4,5))
  have hs: "(\<forall>n \<in> set (heap s'). has_size n) = (\<forall>n \<in> set (heap s). has_size n)"
  proof -
    have "(\<forall>n \<in> set h. has_size n) = (\<forall>b \<in> set (map has_size h). b)" for h by auto
    then show ?thesis by (simp only: assms(3))
  qed
  show ?thesis
    using assms(1,9,10,11)
    by (simp add: editor_inv_def ai hs v len assms(4,6,7,8))
qed

lemma editor_inv_refs:
  "editor_inv s \<Longrightarrow> valid_ref s (dragging_node s)"
  "editor_inv s \<Longrightarrow> valid_ref s (arrow_source s)"
  "editor_inv s \<Longrightarrow> valid_ref s (current_edit_node s)"
  by (simp_all add: editor_inv_def)

lemma editor_inv_init: "editor_inv DiagramEditor_init"
  by (simp add: editor_inv_def DiagramEditor_init_def all_items_def dict_values_def)

lemma editor_inv_on_right_click:
  assumes "editor_inv s" shows "editor_inv (on_right_click s x y)"
  by (rule editor_inv_quiet [OF assms])
     (simp_all add: on_right_click_def editor_inv_refs [OF assms])

lemma editor_inv_on_release:
  assumes "editor_inv s" shows "editor_inv (on_release s)"
  by (rule editor_inv_quiet [OF assms])
     (simp_all add: on_release_def editor_inv_refs [OF assms])

lemma editor_inv_generate_mermaid:
  assumes "editor_inv s" shows "editor_inv (snd (generate_mermaid s))"
  by (rule editor_inv_quiet [OF assms])
     (simp_all add: generate_mermaid_def editor_inv_refs [OF assms] split: sum.splits)

lemma editor_inv_copy:
  assumes "editor_inv s" shows "editor_inv (snd (copy_mermaid_to_clipboard s))"
  by (rule editor_inv_quiet [OF assms])
     (simp_all add: copy_mermaid_to_clipboard_def editor_inv_refs [OF assms] split: sum.splits)

lemma editor_inv_change_color:
  assumes "editor_inv s" shows "editor_inv (change_color s c)"
  by (rule editor_inv_quiet [OF assms])
     (use editor_inv_refs [OF assms] in
       \<open>auto simp add: change_color_def update_color_def map_update_same
          node_items_def has_size_def split: option.splits\<close>)

lemma editor_inv_remove_text_editor:
  assumes "editor_inv s"
  shows "editor_inv (remove_text_editor s)"
proof (cases "text_editor s = None")
  case True
  with assms show ?thesis by (simp add: remove_text_editor_def)
next
  case False
  have dr: "is_drawn (canvas_delete (canvas s) (editor_window_id s)) (e_line_item e)"
    if "e \<in> set (edges s)" for e
  proof -
    from assms that have d: "is_drawn (canvas s) (e_line_item e)"
      by (simp add: editor_inv_def)
    from line_in_items [OF that d] obtain l where l: "e_line_item e = Some l"
      and m: "l \<in> set (concat (map edge_items (edges s)))" by blast
    from assms m have "Some l \<noteq> editor_window_id s"
      by (cases "editor_window_id s") (auto simp add: editor_inv_def all_items_def)
    with d l show ?thesis by (simp add: is_drawn_delete)
  qed
  have eq: "remove_text_editor s =
      s\<lparr>canvas := canvas_delete (canvas s) (editor_window_id s),
        text_editor := None, editor_window_id := None\<rparr>"
    using False by (simp add: remove_text_editor_def)
  from assms dr show ?thesis
    unfolding eq
    by (auto simp add: editor_inv_def all_items_def valid_ref_def split: option.splits)
qed

lemma editor_inv_stop_editing:
  assumes "editor_inv s" shows "editor_inv (stop_editing s)"
proof -
  have r: "editor_inv (remove_text_editor s)"
    using assms by (rule editor_inv_remove_text_editor)
  show ?thesis
    by (rule editor_inv_quiet [OF r])
       (simp_all add: stop_editing_def hide_palette_panel_def editor_inv_refs [OF r])
qed

lemma valid_ref_updates [simp]:
  "valid_ref (s\<lparr>canvas := c\<rparr>) r = valid_ref s r"
  "valid_ref (s\<lparr>nodes := ns\<rparr>) r = valid_ref s r"
  "valid_ref (s\<lparr>edges := es\<rparr>) r = valid_ref s r"
  "valid_ref (s\<lparr>node_counter := k\<rparr>) r = valid_ref s r"
  "valid_ref (s\<lparr>arrow_source := q\<rparr>) r = valid_ref s r"
  "valid_ref (s\<lparr>dragging_node := q\<rparr>) r = valid_ref s r"
  "valid_ref (s\<lparr>drag_offset_x := a\<rparr>) r = valid_ref s r"
  "valid_ref (s\<lparr>drag_offset_y := a\<rparr>) r = valid_ref s r"
  "valid_ref (s\<lparr>current_edit_node := q\<rparr>) r = valid_ref s r"
  "valid_ref (s\<lparr>text_editor := t\<rparr>) r = valid_ref s r"
  "valid_ref (s\<lparr>editor_window_id := w\<rparr>) r = valid_ref s r"
  "valid_ref (s\<lparr>palette_panel := p\<rparr>) r = valid_ref s r"
  "valid_ref (s\<lparr>context_menu_x := m\<rparr>) r = valid_ref s r"
  "valid_ref (s\<lparr>context_menu_y := m\<rparr>) r = valid_ref s r"
  "valid_ref (s\<lparr>clipboard := cb\<rparr>) r = valid_ref s r"
  "valid_ref (s\<lparr>status_label := sl\<rparr>) r = valid_ref s r"
  "valid_ref (s\<lparr>shown := sh\<rparr>) r = valid_ref s r"
  by (cases r; simp)+

lemma editor_inv_plain_fields [simp]:
  "editor_inv (s\<lparr>text_editor := t\<rparr>) = editor_inv s"
  "editor_inv (s\<lparr>palette_panel := p\<rparr>) = editor_inv s"
  "editor_inv (s\<lparr>drag_offset_x := a\<rparr>) = editor_inv s"
  "editor_inv (s\<lparr>drag_offset_y := a\<rparr>) = editor_inv s"
  "editor_inv (s\<lparr>context_menu_x := m\<rparr>) = editor_inv s"
  "editor_inv (s\<lparr>context_menu_y := m\<rparr>) = editor_inv s"
  "editor_inv (s\<lparr>clipboard := cb\<rparr>) = editor_inv s"
  "editor_inv (s\<lparr>status_label := sl\<rparr>) = editor_inv s"
  "editor_inv (s\<lparr>shown := sh\<rparr>) = editor_inv s"
  "editor_inv (s\<lparr>node_counter := k\<rparr>) = editor_inv s"
  by (simp_all add: editor_inv_def all_items_def)

lemma editor_inv_ref_fields:
  "editor_inv s \<Longrightarrow> valid_ref s r \<Longrightarrow> editor_inv (s\<lparr>current_edit_node := r\<rparr>)"
  "editor_inv s \<Longrightarrow> valid_ref s r \<Longrightarrow> editor_inv (s\<lparr>arrow_source := r\<rparr>)"
  "editor_inv s \<Longrightarrow> valid_ref s r \<Longrightarrow> editor_inv (s\<lparr>dragging_node := r\<rparr>)"
  by (simp_all add: editor_inv_def all_items_def)

lemma editor_inv_canvas:
  assumes "editor_inv s" and "next_item c' = next_item (canvas s)"
    and "\<And>l. is_drawn c' l = is_drawn (canvas s) l"
  shows "editor_inv (s\<lparr>canvas := c'\<rparr>)"
  by (rule editor_inv_quiet [OF assms(1)])
     (simp_all add: assms(2,3) editor_inv_refs [OF assms(1)])

lemma editor_inv_new_window:
  assumes "editor_inv s"
  shows "editor_inv (s\<lparr>canvas := snd (canvas_create (canvas s) k cs os),
                        editor_window_id := Some (next_item (canvas s))\<rparr>)"
proof -
  define N where "N = concat (map node_items (heap s))"
  define E where "E = concat (map edge_items (edges s))"
  from assms have d: "distinct (N @ handle_list (editor_window_id s) @ E)"
    and b: "\<forall>i \<in> set N \<union> set E. i < next_item (canvas s)"
    by (auto simp add: editor_inv_def all_items_def N_def E_def)
  from d b have d': "distinct (N @ [next_item (canvas s)] @ E)" by auto
  from b have b': "\<forall>i \<in> set (N @ [next_item (canvas s)] @ E). i < Suc (next_item (canvas s))"
    by (auto intro: less_SucI)
  from assms d' b' show ?thesis
    by (simp add: editor_inv_def all_items_def canvas_create_facts is_drawn_create
        N_def [symmetric] E_def [symmetric])
qed

lemma editor_inv_sized:
  "editor_inv s \<Longrightarrow> r < length (heap s) \<Longrightarrow> has_size (heap s ! r)"
  by (simp add: editor_inv_def)

lemma stop_editing_heap [simp]: "heap (stop_editing s) = heap s"
  by (simp add: stop_editing_def remove_text_editor_def hide_palette_panel_def)

lemma editor_inv_start_editing_node:
  assumes i: "editor_inv s" and r: "r < length (heap s)"
  shows "editor_inv (snd (start_editing_node s r))"
    and "heap (snd (start_editing_node s r)) = heap s"
proof -
  define s1 where "s1 = (if current_edit_node s \<noteq> None \<and> current_edit_node s \<noteq> Some r
                then stop_editing s else s)"
  define s2 where "s2 = s1\<lparr>current_edit_node := Some r\<rparr>"
  have h1: "heap s1 = heap s" by (simp add: s1_def)
  have i1: "editor_inv s1" using i by (simp add: s1_def editor_inv_stop_editing)
  have i2: "editor_inv s2" unfolding s2_def
    by (rule editor_inv_ref_fields(1) [OF i1]) (simp add: h1 r)
  have h2: "heap s2 = heap s" by (simp add: s2_def h1)
  have sz: "has_size (heap s2 ! r)"
    by (rule editor_inv_sized [OF i2]) (simp add: h2 r)
  obtain cx cy where gc: "get_center (heap s2 ! r) = Inr (cx, cy)"
    using get_center_has_size [OF sz] by blast
  define s4 where "s4 = s2\<lparr>text_editor := Some (n_text (heap s2 ! r)),
                           canvas := snd (canvas_create (canvas s2) ''window'' [cx, cy] []),
                           editor_window_id := Some (next_item (canvas s2)),
                           palette_panel := True\<rparr>"
  have "editor_inv s4 = editor_inv (s2\<lparr>canvas := snd (canvas_create (canvas s2) ''window'' [cx, cy] []),
                        editor_window_id := Some (next_item (canvas s2))\<rparr>)"
    by (simp add: editor_inv_def all_items_def s4_def)
  then have i4: "editor_inv s4"
    using editor_inv_new_window [OF i2, of "''window''" "[cx, cy]" "[]"] by simp
  have h4: "heap s4 = heap s" by (simp add: s4_def h2)
  have res: "snd (start_editing_node s r) =
      (if text_editor s2 \<noteq> None then s2
       else (case arrow_source s4 of None \<Rightarrow> s4
             | Some src \<Rightarrow> s4\<lparr>canvas := highlight (canvas s4) (heap s4 ! src) False,
                                arrow_source := None\<rparr>))"
    using gc unfolding h2 s4_def s2_def s1_def
    by (auto simp add: start_editing_node_def Let_def show_palette_panel_def canvas_create_def
        split: option.splits)
  have i5: "editor_inv (s4\<lparr>canvas := highlight (canvas s4) n False, arrow_source := None\<rparr>)" for n
  proof -
    have "editor_inv (s4\<lparr>canvas := highlight (canvas s4) n False\<rparr>)"
      by (rule editor_inv_canvas [OF i4]) simp_all
    then have "editor_inv (s4\<lparr>canvas := highlight (canvas s4) n False\<rparr>\<lparr>arrow_source := None\<rparr>)"
      by (rule editor_inv_ref_fields(2)) simp
    then show ?thesis by simp
  qed
  show "editor_inv (snd (start_editing_node s r))"
    unfolding res using i2 i4 i5 by (simp split: option.splits)
  show "heap (snd (start_editing_node s r)) = heap s"
    unfolding res using h2 h4 by (simp split: option.splits)
qed

lemma get_node_at_loop_mem:
  "get_node_at_loop h rs x y = Inr (Some r) \<Longrightarrow> r \<in> set rs"
  by (induction rs) (auto split: sum.splits if_splits)

lemma editor_inv_get_node_at:
  "editor_inv s \<Longrightarrow> get_node_at s x y = Inr (Some r) \<Longrightarrow> r < length (heap s)"
  using get_node_at_loop_mem [of "heap s" "dict_values (nodes s)" x y r]
  by (simp add: get_node_at_def editor_inv_def)

lemma editor_inv_on_double_click:
  assumes i: "editor_inv s"
  shows "editor_inv (snd (on_double_click s x y))"
proof (cases "get_node_at s x y")
  case (Inl e)
  with i show ?thesis by (simp add: on_double_click_def)
next
  case (Inr node)
  show ?thesis
  proof (cases node)
    case None
    with Inr i show ?thesis by (simp add: on_double_click_def)
  next
    case (Some r)
    with Inr i have r: "r < length (heap s)" by (simp add: editor_inv_get_node_at)
    have i1: "editor_inv (stop_editing s)" by (rule editor_inv_stop_editing [OF i])
    have i2: "editor_inv ((stop_editing s)\<lparr>arrow_source := Some r\<rparr>)"
      by (rule editor_inv_ref_fields(2) [OF i1]) (simp add: r)
    have "editor_inv ((stop_editing s)\<lparr>arrow_source := Some r\<rparr>
            \<lparr>canvas := highlight (canvas ((stop_editing s)\<lparr>arrow_source := Some r\<rparr>)) n True\<rparr>)" for n
      by (rule editor_inv_canvas [OF i2]) simp_all
    with Inr Some show ?thesis by (simp add: on_double_click_def Let_def)
  qed
qed

lemma editor_inv_finish_editing:
  assumes i: "editor_inv s"
  shows "editor_inv (finish_editing s)"
proof -
  define s1 where "s1 = (case (current_edit_node s, text_editor s) of
                  (Some r, Some new_text) \<Rightarrow>
                    (let (n', c') = update_text (canvas s) (heap s ! r) new_text
                     in s\<lparr>canvas := c', heap := (heap s)[r := n']\<rparr>)
                | _ \<Rightarrow> s)"
  have i1: "editor_inv s1"
    by (rule editor_inv_quiet [OF i])
       (use editor_inv_refs [OF i] in
         \<open>auto simp add: s1_def update_text_def map_update_same node_items_def has_size_def
            split: option.splits\<close>)
  have i2: "editor_inv (remove_text_editor s1)" by (rule editor_inv_remove_text_editor [OF i1])
  have "editor_inv ((hide_palette_panel (remove_text_editor s1))\<lparr>current_edit_node := None\<rparr>)"
    by (rule editor_inv_quiet [OF i2])
       (simp_all add: hide_palette_panel_def editor_inv_refs [OF i2])
  then show ?thesis by (simp add: finish_editing_def s1_def Let_def)
qed

lemma update_position_node:
  "fst (snd (update_position c n x y)) = n\<lparr>n_x := x, n_y := y\<rparr>"
  by (simp add: update_position_def Let_def split: sum.splits prod.splits)

lemma editor_inv_on_drag:
  assumes i: "editor_inv s"
  shows "editor_inv (snd (on_drag s x y))"
  by (rule editor_inv_quiet [OF i])
     (use editor_inv_refs [OF i] in
       \<open>auto simp add: on_drag_def Let_def case_prod_beta update_position_node
          map_update_same node_items_def has_size_def split: option.splits sum.splits\<close>)

lemma dict_set_values: "set (dict_values (dict_set d k v)) \<subseteq> insert v (set (dict_values d))"
  by (induction d k v rule: dict_set.induct) (auto simp add: dict_values_def)

lemma Node_init_known:
  assumes "shape = ''rectangle'' \<or> shape = ''diamond''"
  shows "\<exists>n c1. Node_init c node_id x y text shape fill = Inr (n, c1)
           \<and> has_size n
           \<and> node_items n = [next_item c, Suc (next_item c)]
           \<and> next_item c1 = Suc (Suc (next_item c))
           \<and> (\<forall>l. is_drawn c l \<longrightarrow> is_drawn c1 l)"
  using assms
  by (auto simp add: Node_init_def draw_def rect_coords_def diamond_points_def get_center_def
      attr_def Let_def canvas_create_def has_size_def node_items_def is_drawn_dom)

lemma editor_inv_new_node:
  assumes i: "editor_inv s" and sz: "has_size n"
    and it: "node_items n = [next_item (canvas s), Suc (next_item (canvas s))]"
    and nx: "next_item c1 = Suc (Suc (next_item (canvas s)))"
    and dr: "\<forall>l. is_drawn (canvas s) l \<longrightarrow> is_drawn c1 l"
  shows "editor_inv (s\<lparr>canvas := c1, heap := heap s @ [n],
                        nodes := dict_set (nodes s) k (length (heap s))\<rparr>)"
proof -
  define N where "N = concat (map node_items (heap s))"
  define W where "W = handle_list (editor_window_id s)"
  define E where "E = concat (map edge_items (edges s))"
  define a where "a = next_item (canvas s)"
  from i have d: "distinct (N @ W @ E)"
    and b: "\<forall>i \<in> set (N @ W @ E). i < a"
    by (simp_all add: editor_inv_def all_items_def N_def W_def E_def a_def)
  have ne: "a \<notin> set (N @ W @ E) \<and> Suc a \<notin> set (N @ W @ E)"
  proof -
    have "j \<noteq> a \<and> j \<noteq> Suc a" if "j \<in> set (N @ W @ E)" for j
    proof -
      from b that have "j < a" by blast
      then show ?thesis by simp
    qed
    then show ?thesis by blast
  qed
  from d ne have d': "distinct ((N @ [a, Suc a]) @ W @ E)" by auto
  from b have b': "\<forall>i \<in> set ((N @ [a, Suc a]) @ W @ E). i < Suc (Suc a)"
    by (auto intro: less_SucI)
  have ai: "all_items (s\<lparr>canvas := c1, heap := heap s @ [n],
                        nodes := dict_set (nodes s) k (length (heap s))\<rparr>)
            = (N @ [a, Suc a]) @ W @ E"
    by (simp add: all_items_def N_def W_def E_def a_def it)
  have nd: "\<forall>r \<in> set (dict_values (dict_set (nodes s) k (length (heap s)))).
              r < Suc (length (heap s))"
    using dict_set_values [of "nodes s" k "length (heap s)"] i
    by (auto simp add: editor_inv_def intro: less_SucI)
  have v: "valid_ref s r \<Longrightarrow> valid_ref (s\<lparr>canvas := c1, heap := heap s @ [n],
                        nodes := dict_set (nodes s) k (length (heap s))\<rparr>) r" for r
    by (cases r) simp_all
  show ?thesis
    unfolding editor_inv_def ai
    using d' b' nd i sz dr v
    by (auto simp add: editor_inv_def nx a_def intro: less_SucI)
qed

lemma editor_inv_create_node_at:
  assumes i: "editor_inv s" and sh: "shape = ''rectangle'' \<or> shape = ''diamond''"
  shows "editor_inv (snd (create_node_at s shape))"
proof (cases "context_menu_x s = None \<or> context_menu_y s = None")
  case True
  then have "create_node_at s shape = (Some AttributeError, s)" by (rule create_node_at_unset)
  with i show ?thesis by simp
next
  case False
  then obtain x y where xy: "context_menu_x s = Some x" "context_menu_y s = Some y" by auto
  have g: "get_new_node_id s = (id_at (node_counter s), s\<lparr>node_counter := Suc (node_counter s)\<rparr>)"
    using get_new_node_id_fst [of s] by (simp add: get_new_node_id_def Let_def)
  obtain n c1 where ni: "Node_init (canvas s) (id_at (node_counter s)) x y ''Node'' shape ''#FFFFFF''
        = Inr (n, c1)"
    and sz: "has_size n"
    and it: "node_items n = [next_item (canvas s), Suc (next_item (canvas s))]"
    and nx: "next_item c1 = Suc (Suc (next_item (canvas s)))"
    and dr: "\<forall>l. is_drawn (canvas s) l \<longrightarrow> is_drawn c1 l"
    using Node_init_known [OF sh, of "canvas s" "id_at (node_counter s)" x y "''Node''" "''#FFFFFF''"]
    by blast
  define s1 where "s1 = s\<lparr>node_counter := Suc (node_counter s)\<rparr>"
  have i1: "editor_inv s1" using i by (simp add: s1_def)
  define s2 where "s2 = s1\<lparr>canvas := c1, heap := heap s1 @ [n],
                        nodes := dict_set (nodes s1) (id_at (node_counter s)) (length (heap s1))\<rparr>"
  have i2: "editor_inv s2" unfolding s2_def
    by (rule editor_inv_new_node [OF i1 sz]) (simp_all add: s1_def it nx dr)
  have c: "create_node_at s shape = start_editing_node s2 (length (heap s))"
    by (simp add: create_node_at_def attr_def xy g ni Let_def s2_def s1_def)
  show ?thesis
    unfolding c by (rule editor_inv_start_editing_node(1) [OF i2]) (simp add: s2_def s1_def)
qed

lemma Edge_init_sized:
  assumes "has_size (h ! src)" and "has_size (h ! tgt)"
  shows "\<exists>c1. Edge_init c h src tgt [] =
             Inr (\<lparr>e_source = src, e_target = tgt, e_label = [],
                    e_line_item = Some (next_item c), e_label_item = None\<rparr>, c1)
           \<and> next_item c1 = Suc (next_item c)
           \<and> (\<forall>l. is_drawn c l \<longrightarrow> is_drawn c1 l)
           \<and> is_drawn c1 (Some (next_item c))"
  by (auto simp add: Edge_init_def Edge_draw_def get_center_has_size [OF assms(1)]
      get_center_has_size [OF assms(2)] Let_def canvas_create_def is_drawn_dom)

lemma editor_inv_new_edge:
  assumes i: "editor_inv s" and sr: "src < length (heap s)" and tg: "tgt < length (heap s)"
    and nx: "next_item c1 = Suc (next_item (canvas s))"
    and dr: "\<forall>l. is_drawn (canvas s) l \<longrightarrow> is_drawn c1 l"
    and ln: "is_drawn c1 (Some (next_item (canvas s)))"
  shows "editor_inv (s\<lparr>canvas := c1,
            edges := edges s @ [\<lparr>e_source = src, e_target = tgt, e_label = lbl,
                    e_line_item = Some (next_item (canvas s)), e_label_item = None\<rparr>]\<rparr>)"
proof -
  define N where "N = concat (map node_items (heap s))"
  define W where "W = handle_list (editor_window_id s)"
  define E where "E = concat (map edge_items (edges s))"
  define a where "a = next_item (canvas s)"
  from i have d: "distinct (N @ W @ E)"
    and b: "\<forall>i \<in> set (N @ W @ E). i < a"
    by (simp_all add: editor_inv_def all_items_def N_def W_def E_def a_def)
  have ne: "a \<notin> set (N @ W @ E)"
  proof
    assume "a \<in> set (N @ W @ E)"
    with b have "a < a" by blast
    then show False by simp
  qed
  from d ne have d': "distinct (N @ W @ E @ [a])" by auto
  from b have b': "\<forall>i \<in> set (N @ W @ E @ [a]). i < Suc a"
    by (auto intro: less_SucI)
  have ai: "all_items (s\<lparr>canvas := c1,
            edges := edges s @ [\<lparr>e_source = src, e_target = tgt, e_label = lbl,
                    e_line_item = Some (next_item (canvas s)), e_label_item = None\<rparr>]\<rparr>)
            = N @ W @ E @ [a]"
    by (simp add: all_items_def N_def W_def E_def a_def edge_items_def)
  show ?thesis
    unfolding editor_inv_def ai
    using d' b' i sr tg dr ln
    by (auto simp add: editor_inv_def nx a_def)
qed

lemma editor_inv_on_left_click:
  assumes i: "editor_inv s"
  shows "editor_inv (snd (on_left_click s x y))"
proof (cases "get_node_at s x y")
  case (Inl e)
  with i show ?thesis by (simp add: on_left_click_def split: option.splits)
next
  case (Inr node)
  show ?thesis
  proof (cases node)
    case None
    with Inr i show ?thesis
      by (simp add: on_left_click_def editor_inv_stop_editing split: option.splits)
  next
    case (Some r)
    with Inr i have r: "r < length (heap s)" by (simp add: editor_inv_get_node_at)
    show ?thesis
    proof (cases "arrow_source s")
      case None
      have i1: "editor_inv (snd (start_editing_node s r))"
        and h1: "heap (snd (start_editing_node s r)) = heap s"
        by (rule editor_inv_start_editing_node [OF i r])+
      have "editor_inv ((snd (start_editing_node s r))\<lparr>dragging_node := Some r\<rparr>)"
        by (rule editor_inv_ref_fields(3) [OF i1]) (simp add: h1 r)
      then have "editor_inv ((snd (start_editing_node s r))\<lparr>dragging_node := Some r,
                    drag_offset_x := a, drag_offset_y := b\<rparr>)" for a b
        by (simp add: editor_inv_def all_items_def)
      with i1 None Inr Some show ?thesis
        by (auto simp add: on_left_click_def split: prod.splits option.splits)
    next
      case (Some src)
      note src = this
      with editor_inv_refs(2) [OF i] have sv: "src < length (heap s)" by simp
      show ?thesis
      proof (cases "r = src")
        case True
        with src Inr \<open>node = Some r\<close> i show ?thesis by (simp add: on_left_click_def)
      next
        case False
        obtain c1 where ei: "Edge_init (canvas s) (heap s) src r [] =
             Inr (\<lparr>e_source = src, e_target = r, e_label = [],
                    e_line_item = Some (next_item (canvas s)), e_label_item = None\<rparr>, c1)"
          and nx: "next_item c1 = Suc (next_item (canvas s))"
          and dr: "\<forall>l. is_drawn (canvas s) l \<longrightarrow> is_drawn c1 l"
          and ln: "is_drawn c1 (Some (next_item (canvas s)))"
          using Edge_init_sized [OF editor_inv_sized [OF i sv] editor_inv_sized [OF i r],
              of "canvas s"] by blast
        define s1 where "s1 = s\<lparr>canvas := c1,
            edges := edges s @ [\<lparr>e_source = src, e_target = r, e_label = [],
                    e_line_item = Some (next_item (canvas s)), e_label_item = None\<rparr>]\<rparr>"
        have i1: "editor_inv s1" unfolding s1_def
          by (rule editor_inv_new_edge [OF i sv r nx dr ln])
        have i2: "editor_inv (s1\<lparr>canvas := highlight (canvas s1) n False\<rparr>)" for n
          by (rule editor_inv_canvas [OF i1]) simp_all
        have i3: "editor_inv (s1\<lparr>canvas := highlight (canvas s1) n False\<rparr>\<lparr>arrow_source := None\<rparr>)" for n
          by (rule editor_inv_ref_fields(2) [OF i2]) simp
        have "snd (on_left_click s x y) =
                s1\<lparr>canvas := highlight (canvas s1) (heap s ! src) False\<rparr>\<lparr>arrow_source := None\<rparr>"
          using src Inr \<open>node = Some r\<close> False ei by (simp add: on_left_click_def s1_def)
        then show ?thesis using i3 by simp
      qed
    qed
  qed
qed

lemma editor_inv_handle_key_release:
  assumes "editor_inv s" shows "editor_inv (handle (KeyRelease t) s)"
  by (rule editor_inv_quiet [OF assms])
     (use editor_inv_refs [OF assms] in
       \<open>auto simp add: on_key_release_def update_text_def map_update_same
          node_items_def has_size_def split: option.splits\<close>)

lemma editor_inv_handle: "editor_inv s \<Longrightarrow> editor_inv (handle ev s)"
  by (cases ev)
     (simp_all add: editor_inv_on_right_click editor_inv_create_node_at editor_inv_on_left_click
        editor_inv_on_double_click editor_inv_on_drag editor_inv_on_release
        editor_inv_finish_editing editor_inv_change_color editor_inv_generate_mermaid
        editor_inv_copy editor_inv_handle_key_release del: handle.simps(8))

lemma editor_inv_fold: "editor_inv s \<Longrightarrow> editor_inv (fold handle evs s)"
  by (induction evs arbitrary: s) (simp_all add: editor_inv_handle)

lemma editor_inv_run: "editor_inv (run evs)"
  unfolding run_def by (rule editor_inv_fold [OF editor_inv_init])

lemma drag_editor_run:
  "drag_editor =
     run [RightClick 10 10, MenuRectangle, RightClick 200 10, MenuDiamond,
          RightClick 10 200, MenuRectangle, DoubleClick 20 20, LeftClick 210 20,
          DoubleClick 210 20, LeftClick 20 210, LeftClick 20 20]"
  by (simp add: run_def drag_editor_def new_node_def Let_def)

lemma editor_inv_drag_items:
  assumes i: "editor_inv s" and d: "d < length (heap s)"
  shows "distinct (drag_items s d)"
proof -
  have "\<exists>pre post. concat (map node_items (heap s)) = pre @ node_items (heap s ! d) @ post"
  proof -
    have "heap s = take d (heap s) @ heap s ! d # drop (Suc d) (heap s)"
      using d by (rule id_take_nth_drop)
    then have "concat (map node_items (heap s)) =
        concat (map node_items (take d (heap s))) @ node_items (heap s ! d)
        @ concat (map node_items (drop (Suc d) (heap s)))"
      by (metis concat.simps(2) concat_append list.simps(9) map_append)
    then show ?thesis by blast
  qed
  then obtain pre post where
    "concat (map node_items (heap s)) = pre @ node_items (heap s ! d) @ post" by blast
  with i show ?thesis
    by (auto simp add: editor_inv_def all_items_def drag_items_def)
qed

lemma editor_inv_drag_ready:
  assumes i: "editor_inv s" and dn: "dragging_node s = Some d"
  shows "has_size (heap s ! d)
       \<and> (\<forall>e \<in> set (edges s). incident d e \<longrightarrow>
               has_size (heap s ! e_source e) \<and> has_size (heap s ! e_target e)
               \<and> is_drawn (canvas s) (e_line_item e))
       \<and> distinct (drag_items s d)"
proof -
  from editor_inv_refs(1) [OF i] dn have d: "d < length (heap s)" by simp
  have "has_size (heap s ! d)" by (rule editor_inv_sized [OF i d])
  moreover have "\<forall>e \<in> set (edges s). incident d e \<longrightarrow>
               has_size (heap s ! e_source e) \<and> has_size (heap s ! e_target e)
               \<and> is_drawn (canvas s) (e_line_item e)"
    using i by (simp add: editor_inv_def)
  moreover have "distinct (drag_items s d)" by (rule editor_inv_drag_items [OF i d])
  ultimately show ?thesis by blast
qed

end
